theory Spec2Isabelle
  imports Main "HOL-Library.Multiset" "HOL-Library.List_Lexorder"
begin

section \<open>Strings\<close>

text \<open>
  A Python \<open>str\<close> is a sequence of Unicode code points, and \<open>sorted\<close> compares two of
  them lexicographically by code point. A character is therefore a natural number and a
  string a list of them, ordered by the lexicographic order on lists.
\<close>

type_synonym pychar = nat
type_synonym pystr = "pychar list"

definition ch :: "char \<Rightarrow> pychar" where
  "ch c = of_char c"

definition lit :: "string \<Rightarrow> pystr" where
  "lit s = map ch s"

text \<open>
  \<open>str.isupper\<close>, \<open>str.islower\<close> (both on one-character strings, as the checkers call
  them) and \<open>str.lower\<close> read the interpreter's Unicode tables, which are not part of the
  repository: they are a parameter of every function that uses them.
\<close>

record str_methods =
  isupper :: "pychar \<Rightarrow> bool"
  islower :: "pychar \<Rightarrow> bool"
  lower :: "pystr \<Rightarrow> pystr"

definition ascii_upper :: "pychar \<Rightarrow> bool" where
  "ascii_upper c = (65 \<le> c \<and> c \<le> 90)"

definition ascii_lower :: "pychar \<Rightarrow> bool" where
  "ascii_lower c = (97 \<le> c \<and> c \<le> 122)"

definition is_ascii :: "pystr \<Rightarrow> bool" where
  "is_ascii s = list_all (\<lambda>c. c < 128) s"

text \<open>What every Unicode table says about the ASCII block.\<close>

definition ascii_conformant :: "str_methods \<Rightarrow> bool" where
  "ascii_conformant U =
     ((\<forall>c<128. isupper U c = ascii_upper c) \<and>
      (\<forall>c<128. islower U c = ascii_lower c) \<and>
      (\<forall>s. is_ascii s \<longrightarrow> lower U s = map (\<lambda>c. if ascii_upper c then c + 32 else c) s))"

text \<open>
  Modelled from the Unicode character database as CPython's \<open>str\<close> methods read it: the
  ASCII letters, and the titlecase letter U+1F88 (GREEK CAPITAL LETTER ALPHA WITH PSILI AND
  PROSGEGRAMMENI, category Lt), which is neither upper nor lower case and whose lowercase
  form is U+1F80. No other code point is covered by this excerpt.
\<close>

definition ucd_excerpt :: str_methods where
  "ucd_excerpt =
     \<lparr> isupper = ascii_upper,
       islower = (\<lambda>c. ascii_lower c \<or> c = 8064),
       lower = map (\<lambda>c. if ascii_upper c then c + 32 else if c = 8072 then 8064 else c) \<rparr>"

section \<open>Syntax trees\<close>

text \<open>
  The nodes of Python's \<open>ast\<close> module, as far as the checkers read them. \<open>import_alias\<close> (the class \<open>alias\<close>), \<open>arg\<close>
  and \<open>arguments\<close> carry the fields of the classes of the same name; an annotation is kept
  as its source text, since the checkers only test it against \<open>None\<close>.
\<close>

record import_alias =
  alias_name :: pystr
  asname :: "pystr option"

record arg =
  arg_id :: pystr
  annotation :: "pystr option"

record arguments =
  posonlyargs :: "arg list"
  args :: "arg list"
  vararg :: "arg option"
  kwonlyargs :: "arg list"
  kwarg :: "arg option"

text \<open>
  The class of a node, with the attributes read from it: the aliases of an \<open>Import\<close>; the
  module (absent in \<open>from . import x\<close>) and the aliases of an \<open>ImportFrom\<close>; the name of a
  \<open>ClassDef\<close>; the name, the parameters and the return annotation of a \<open>FunctionDef\<close>.
  The last field of \<open>ClassDef\<close> and \<open>FunctionDef\<close> is what \<open>ast.get_docstring\<close> returns for
  the node. Every other class, \<open>Module\<close> and \<open>AsyncFunctionDef\<close> among them, is \<open>Other\<close>.
\<close>

datatype kind =
    Import "import_alias list"
  | ImportFrom "pystr option" "import_alias list"
  | ClassDef pystr "pystr option"
  | FunctionDef pystr arguments "pystr option" "pystr option"
  | Other

text \<open>
  A node has an identity (Python hashes and compares nodes by identity), its class and the
  nodes \<open>ast.iter_child_nodes\<close> yields for it, in that order.
\<close>

datatype node = Node (nid: nat) (kind: kind) (iter_child_nodes: "node list")

text \<open>
  \<open>ast.walk\<close>: a queue that starts with the root; the first node is taken off, its
  children are appended at the end, and the node is yielded.
\<close>

function walk_todo :: "node list \<Rightarrow> node list" where
  "walk_todo [] = []"
| "walk_todo (n # todo) = n # walk_todo (todo @ iter_child_nodes n)"
  by pat_completeness auto
termination
proof (relation "measure (\<lambda>todo. sum_list (map size todo))")
  show "wf (measure (\<lambda>todo. sum_list (map size todo)))" by simp
next
  fix n :: node and todo :: "node list"
  have "sum_list (map size (iter_child_nodes n)) < size n"
    by (cases n) (simp add: size_list_conv_sum_list)
  then show "(todo @ iter_child_nodes n, n # todo) \<in> measure (\<lambda>todo. sum_list (map size todo))"
    by simp
qed

definition walk :: "node \<Rightarrow> node list" where
  "walk tree = walk_todo [tree]"

section \<open>Errors\<close>

text \<open>The exceptions the expressions of the checker can raise.\<close>

datatype error = KeyError | AttributeError | TypeError

definition bind_err :: "error + 'a \<Rightarrow> ('a \<Rightarrow> error + 'b) \<Rightarrow> error + 'b" where
  "bind_err x f = (case x of Inl e \<Rightarrow> Inl e | Inr v \<Rightarrow> f v)"

text \<open>The values of a generator, up to the first one that raises.\<close>

fun collect :: "(error + 'a) list \<Rightarrow> error + 'a list" where
  "collect [] = Inr []"
| "collect (x # xs) =
     bind_err x (\<lambda>v. bind_err (collect xs) (\<lambda>vs. Inr (v # vs)))"

section \<open>The functional style checker (assignment2)\<close>

subsection \<open>Parent map\<close>

text \<open>
  A dictionary keyed by nodes, that is, by their identities; a value is the parent node or
  \<open>None\<close>. The comprehension stores one entry per pair of a walked node and one of its
  children, a later entry replacing an earlier one under the same key, and \<open>|\<close> lets the
  entry of the root win.
\<close>

type_synonym parent_map = "nat \<rightharpoonup> node option"

definition child_parent_pairs :: "node \<Rightarrow> (node \<times> node) list" where
  "child_parent_pairs tree =
     concat (map (\<lambda>parent. map (\<lambda>child. (child, parent)) (iter_child_nodes parent)) (walk tree))"

definition build_parent_map :: "node \<Rightarrow> parent_map" where
  "build_parent_map tree =
     fold (\<lambda>(child, parent) m. m(nid child \<mapsto> Some parent)) (child_parent_pairs tree) Map.empty
       ++ [nid tree \<mapsto> None]"

text \<open>\<open>parents.get(node)\<close> and \<open>parents[node]\<close>.\<close>

definition get :: "parent_map \<Rightarrow> node \<Rightarrow> node option" where
  "get parents n = (case parents (nid n) of None \<Rightarrow> None | Some v \<Rightarrow> v)"

definition subscript :: "parent_map \<Rightarrow> node \<Rightarrow> error + node option" where
  "subscript parents n = (case parents (nid n) of None \<Rightarrow> Inl KeyError | Some v \<Rightarrow> Inr v)"

definition is_ClassDef :: "node \<Rightarrow> bool" where
  "is_ClassDef n = (case kind n of ClassDef _ _ \<Rightarrow> True | _ \<Rightarrow> False)"

definition is_FunctionDef :: "node \<Rightarrow> bool" where
  "is_FunctionDef n = (case kind n of FunctionDef _ _ _ _ \<Rightarrow> True | _ \<Rightarrow> False)"

definition is_method :: "node \<Rightarrow> parent_map \<Rightarrow> bool" where
  "is_method n parents = (case get parents n of None \<Rightarrow> False | Some p \<Rightarrow> is_ClassDef p)"

text \<open>The attribute \<open>name\<close>, which only class and function definitions have.\<close>

definition node_name :: "node \<Rightarrow> error + pystr" where
  "node_name n =
     (case kind n of
        ClassDef nm _ \<Rightarrow> Inr nm
      | FunctionDef nm _ _ _ \<Rightarrow> Inr nm
      | _ \<Rightarrow> Inl AttributeError)"

text \<open>\<open>parents[n].name\<close>.\<close>

definition parent_name :: "parent_map \<Rightarrow> node \<Rightarrow> error + pystr" where
  "parent_name parents n =
     bind_err (subscript parents n)
       (\<lambda>v. case v of None \<Rightarrow> Inl AttributeError | Some p \<Rightarrow> node_name p)"

text \<open>
  The expression
  \<^verbatim>\<open>f"{parents[n].name}.{n.name}" if is_method(n, parents) else n.name\<close>
  of \<open>missing_type_annotations\<close> and \<open>naming_violations\<close>.
\<close>

definition qualified_name :: "parent_map \<Rightarrow> node \<Rightarrow> error + pystr" where
  "qualified_name parents n =
     (if is_method n parents
      then bind_err (parent_name parents n)
             (\<lambda>c. bind_err (node_name n) (\<lambda>f. Inr (c @ lit ''.'' @ f)))
      else node_name n)"

subsection \<open>Structure\<close>

text \<open>\<open>sorted\<close> of a set: its elements, each once, in ascending order.\<close>

definition sorted_set :: "pystr list \<Rightarrow> pystr list" where
  "sorted_set xs = sorted_list_of_set (set xs)"

definition import_names :: "node \<Rightarrow> pystr list" where
  "import_names n = (case kind n of Import names \<Rightarrow> map alias_name names | _ \<Rightarrow> [])"

text \<open>\<open>n.module\<close> for an \<open>ImportFrom\<close> whose module is neither \<open>None\<close> nor empty.\<close>

definition from_module :: "node \<Rightarrow> pystr list" where
  "from_module n =
     (case kind n of
        ImportFrom (Some m) _ \<Rightarrow> (if m \<noteq> [] then [m] else [])
      | _ \<Rightarrow> [])"

definition packages_imported :: "node \<Rightarrow> pystr list" where
  "packages_imported tree =
     sorted_set (concat (map import_names (walk tree)) @ concat (map from_module (walk tree)))"

definition class_name :: "node \<Rightarrow> pystr list" where
  "class_name n = (case kind n of ClassDef nm _ \<Rightarrow> [nm] | _ \<Rightarrow> [])"

definition function_name :: "node \<Rightarrow> pystr list" where
  "function_name n = (case kind n of FunctionDef nm _ _ _ \<Rightarrow> [nm] | _ \<Rightarrow> [])"

definition classes_defined :: "node \<Rightarrow> pystr list" where
  "classes_defined tree = sorted_set (concat (map class_name (walk tree)))"

definition functions_defined :: "node \<Rightarrow> parent_map \<Rightarrow> pystr list" where
  "functions_defined tree parents =
     sorted_set (concat (map function_name
       (filter (\<lambda>n. is_FunctionDef n \<and> \<not> is_method n parents) (walk tree))))"

subsection \<open>Documentation strings and annotations\<close>

text \<open>\<open>ast.get_docstring\<close>, which raises on a node that cannot carry one.\<close>

definition get_docstring :: "node \<Rightarrow> error + pystr option" where
  "get_docstring n =
     (case kind n of
        ClassDef _ d \<Rightarrow> Inr d
      | FunctionDef _ _ _ d \<Rightarrow> Inr d
      | _ \<Rightarrow> Inl TypeError)"

definition fmt :: "parent_map \<Rightarrow> node \<Rightarrow> error + pystr" where
  "fmt parents n =
     bind_err
       (if is_FunctionDef n \<and> is_method n parents
        then bind_err (parent_name parents n)
               (\<lambda>c. bind_err (node_name n) (\<lambda>f. Inr (c @ lit ''.'' @ f)))
        else node_name n)
       (\<lambda>name. bind_err (get_docstring n)
          (\<lambda>doc. Inr (case doc of
                         None \<Rightarrow> name @ lit '': DocString not found.''
                       | Some d \<Rightarrow>
                           if d \<noteq> [] then name @ lit '': '' @ d
                           else name @ lit '': DocString not found.'')))"

definition docstring_entries :: "node \<Rightarrow> parent_map \<Rightarrow> error + pystr list" where
  "docstring_entries tree parents =
     collect (map (fmt parents)
       (filter (\<lambda>n. is_ClassDef n \<or> is_FunctionDef n) (walk tree)))"

definition incomplete :: "arguments \<Rightarrow> pystr option \<Rightarrow> bool" where
  "incomplete fn_args fn_returns =
     (list_ex (\<lambda>a. annotation a = None) (args fn_args) \<or> fn_returns = None)"

text \<open>\<open>isinstance(n, ast.FunctionDef) and incomplete(n)\<close>.\<close>

definition incomplete_function :: "node \<Rightarrow> bool" where
  "incomplete_function n =
     (case kind n of FunctionDef _ a r _ \<Rightarrow> incomplete a r | _ \<Rightarrow> False)"

definition missing_type_annotations :: "node \<Rightarrow> parent_map \<Rightarrow> error + pystr list" where
  "missing_type_annotations tree parents =
     bind_err (collect (map (qualified_name parents) (filter incomplete_function (walk tree))))
       (\<lambda>names. Inr (sort names))"

subsection \<open>Naming conventions\<close>

definition violates_camel :: "str_methods \<Rightarrow> pystr \<Rightarrow> bool" where
  "violates_camel U name =
     (\<not> (case name of
            [] \<Rightarrow> False
          | c # _ \<Rightarrow> isupper U c \<and> ch CHR ''_'' \<notin> set name))"

definition violates_snake :: "str_methods \<Rightarrow> pystr \<Rightarrow> bool" where
  "violates_snake U name =
     (name \<noteq> lower U name \<or> list_ex (isupper U) (filter (\<lambda>c. c \<noteq> ch CHR ''_'') name))"

definition camel_violator :: "str_methods \<Rightarrow> node \<Rightarrow> pystr list" where
  "camel_violator U n =
     (case kind n of ClassDef nm _ \<Rightarrow> (if violates_camel U nm then [nm] else []) | _ \<Rightarrow> [])"

text \<open>\<open>isinstance(n, ast.FunctionDef) and _violates_snake(n.name)\<close>.\<close>

definition snake_violator :: "str_methods \<Rightarrow> node \<Rightarrow> bool" where
  "snake_violator U n =
     (case kind n of FunctionDef nm _ _ _ \<Rightarrow> violates_snake U nm | _ \<Rightarrow> False)"

definition naming_violations ::
  "str_methods \<Rightarrow> node \<Rightarrow> parent_map \<Rightarrow> error + (pystr list \<times> pystr list)" where
  "naming_violations U tree parents =
     (let bad_classes = sorted_set (concat (map (camel_violator U) (walk tree)))
      in bind_err
           (collect (map (qualified_name parents) (filter (snake_violator U) (walk tree))))
           (\<lambda>names. Inr (bad_classes, sorted_set names)))"

subsection \<open>Report\<close>

fun join :: "pystr \<Rightarrow> pystr list \<Rightarrow> pystr" where
  "join sep [] = []"
| "join sep [x] = x"
| "join sep (x # y # ys) = x @ sep @ join sep (y # ys)"

text \<open>The decimal digits of a line count, as an f-string prints it.\<close>

function str_nat :: "nat \<Rightarrow> pystr" where
  "str_nat n = (if n < 10 then [48 + n] else str_nat (n div 10) @ [48 + n mod 10])"
  by pat_completeness auto
termination
  by (relation "measure (\<lambda>n. n)") auto

definition newline :: pystr where
  "newline = [10]"

text \<open>The list \<open>lines\<close> of \<open>render_report\<close>; the first argument is \<open>path.name\<close>.\<close>

definition report_lines ::
  "pystr \<Rightarrow> nat \<Rightarrow> pystr list \<Rightarrow> pystr list \<Rightarrow> pystr list \<Rightarrow> pystr list \<Rightarrow> pystr list \<Rightarrow>
   pystr list \<Rightarrow> pystr list \<Rightarrow> pystr list" where
  "report_lines path_name total_lines packages classes functions docstrings missing_ann
     bad_classes bad_funcs =
     [ lit ''File analysed: '' @ path_name,
       lit ''Total number of lines of code: '' @ str_nat total_lines,
       [],
       lit ''File Structure'',
       lit ''Packages imported: '' @ (if packages \<noteq> [] then join (lit '', '') packages else lit ''None''),
       lit ''Classes defined: '' @ (if classes \<noteq> [] then join (lit '', '') classes else lit ''None''),
       lit ''Functions defined: '' @ (if functions \<noteq> [] then join (lit '', '') functions else lit ''None''),
       [],
       lit ''DocStrings'' ]
     @ docstrings @
     [ [],
       lit ''Type Annotation Check'',
       (if missing_ann = [] then lit ''All functions and methods use type annotations.''
        else lit ''Missing type annotations:'' @ newline @ join newline missing_ann),
       [],
       lit ''Naming Convention Check'',
       (if bad_classes = [] \<and> bad_funcs = []
        then lit ''All names adhere to the specified conventions.''
        else join newline
               (filter (\<lambda>l. l \<noteq> [])
                  [ if bad_classes \<noteq> []
                    then lit ''Classes not using CamelCase: '' @ join (lit '', '') bad_classes
                    else [],
                    if bad_funcs \<noteq> []
                    then lit ''Functions/methods not using snake_case: '' @ join (lit '', '') bad_funcs
                    else [] ])) ]"

definition render_report ::
  "pystr \<Rightarrow> nat \<Rightarrow> pystr list \<Rightarrow> pystr list \<Rightarrow> pystr list \<Rightarrow> pystr list \<Rightarrow> pystr list \<Rightarrow>
   pystr list \<Rightarrow> pystr list \<Rightarrow> pystr" where
  "render_report path_name total_lines packages classes functions docstrings missing_ann
     bad_classes bad_funcs =
     join newline
       (report_lines path_name total_lines packages classes functions docstrings missing_ann
          bad_classes bad_funcs)"

text \<open>
  The part of \<open>main\<close> between parsing and writing: the parent map is built once, every
  auditor reads the tree, and the findings are rendered. \<open>naming_violations\<close> is called
  once for each of its two components.
\<close>

definition style_report :: "str_methods \<Rightarrow> pystr \<Rightarrow> nat \<Rightarrow> node \<Rightarrow> error + pystr" where
  "style_report U path_name total_lines tree =
     (let parents = build_parent_map tree in
      bind_err (docstring_entries tree parents) (\<lambda>docstrings.
      bind_err (missing_type_annotations tree parents) (\<lambda>missing_ann.
      bind_err (naming_violations U tree parents) (\<lambda>v1.
      bind_err (naming_violations U tree parents) (\<lambda>v2.
        Inr (render_report path_name total_lines
               (packages_imported tree) (classes_defined tree) (functions_defined tree parents)
               docstrings missing_ann (fst v1) (snd v2)))))))"

section \<open>The first style checker (assignment1)\<close>

text \<open>
  The test of \<open>_check_naming_conventions\<close> under which a function name is appended to
  \<open>incorrect_functions\<close>.
\<close>

definition a1_not_snake :: "str_methods \<Rightarrow> pystr \<Rightarrow> bool" where
  "a1_not_snake U name =
     (\<not> list_all (\<lambda>x. islower U x \<or> x = ch CHR ''_'') name \<and> name \<noteq> lit ''lower'')"

section \<open>Notions of the specification\<close>

text \<open>Tree pre-order: a node, then the pre-orders of its children from left to right.\<close>

fun preorder :: "node \<Rightarrow> node list" where
  "preorder (Node i k cs) = Node i k cs # concat (map preorder cs)"

text \<open>
  The body of a section of the report: the lines after the section's header, up to the
  next empty line.
\<close>

definition section_body :: "pystr \<Rightarrow> pystr list \<Rightarrow> pystr list" where
  "section_body header ls = takeWhile (\<lambda>l. l \<noteq> []) (drop 1 (dropWhile (\<lambda>l. l \<noteq> header) ls))"

section \<open>Example trees\<close>

definition no_arguments :: arguments where
  "no_arguments = \<lparr> posonlyargs = [], args = [], vararg = None, kwonlyargs = [], kwarg = None \<rparr>"

definition untyped :: "string \<Rightarrow> arg" where
  "untyped x = \<lparr> arg_id = lit x, annotation = None \<rparr>"

definition typed :: "string \<Rightarrow> string \<Rightarrow> arg" where
  "typed x t = \<lparr> arg_id = lit x, annotation = Some (lit t) \<rparr>"

text \<open>
  The scenario of the specification, as the parser returns it: a class \<open>Foo\<close> with the
  method \<^verbatim>\<open>def bar(x): pass\<close>, followed by \<^verbatim>\<open>def baz(x: int) -> int: "doc"\<close>.
  Nodes 3 and 7 are the \<open>arguments\<close> nodes, 4 and 8 the \<open>arg\<close> nodes, 5 the \<open>Pass\<close>
  statement, 11 and 12 the expression statement and the constant of the documentation
  string, 9 and 13 the two \<open>Name\<close> nodes \<open>int\<close>. Node 10 is the expression context
  \<open>Load\<close>: the parser creates one such object and hands it to every \<open>Name\<close> node, so that
  it is a child of both.
\<close>

definition bar_def :: node where
  "bar_def =
     Node 2 (FunctionDef (lit ''bar'') (no_arguments \<lparr> args := [untyped ''x''] \<rparr>) None None)
       [ Node 3 Other [Node 4 Other []], Node 5 Other [] ]"

definition Foo_class :: node where
  "Foo_class = Node 1 (ClassDef (lit ''Foo'') None) [bar_def]"

definition load_ctx :: node where
  "load_ctx = Node 10 Other []"

definition annotation_int :: node where
  "annotation_int = Node 9 Other [load_ctx]"

definition returns_int :: node where
  "returns_int = Node 13 Other [load_ctx]"

definition baz_def :: node where
  "baz_def =
     Node 6 (FunctionDef (lit ''baz'') (no_arguments \<lparr> args := [typed ''x'' ''int''] \<rparr>)
               (Some (lit ''int'')) (Some (lit ''doc'')))
       [ Node 7 Other [Node 8 Other [annotation_int]],
         Node 11 Other [Node 12 Other []],
         returns_int ]"

definition scenario :: node where
  "scenario = Node 0 Other [Foo_class, baz_def]"

text \<open>
  The class of the scenario alone, a file without expressions: all six nodes are
  different objects.
\<close>

definition class_with_method :: node where
  "class_with_method = Node 0 Other [Foo_class]"

text \<open>The function \<open>baz\<close> of the scenario alone.\<close>

definition function_alone :: node where
  "function_alone = Node 0 Other [baz_def]"

text \<open>
  Four functions with the return annotation \<open>int\<close> and one parameter without annotation
  each: \<open>f\<close> takes \<open>*args\<close>, \<open>h\<close> takes \<open>**kwargs\<close>, \<open>g\<close> takes the positional-only
  parameter \<open>x\<close>, and \<open>k\<close> takes the keyword-only parameter \<open>a\<close>.
\<close>

definition catch_all_functions :: node where
  "catch_all_functions =
     Node 0 Other
       [ Node 1 (FunctionDef (lit ''f'') (no_arguments \<lparr> vararg := Some (untyped ''args'') \<rparr>)
                   (Some (lit ''int'')) None) [],
         Node 2 (FunctionDef (lit ''h'') (no_arguments \<lparr> kwarg := Some (untyped ''kwargs'') \<rparr>)
                   (Some (lit ''int'')) None) [],
         Node 3 (FunctionDef (lit ''g'') (no_arguments \<lparr> posonlyargs := [untyped ''x''] \<rparr>)
                   (Some (lit ''int'')) None) [],
         Node 4 (FunctionDef (lit ''k'') (no_arguments \<lparr> kwonlyargs := [untyped ''a''] \<rparr>)
                   (Some (lit ''int'')) None) [] ]"

text \<open>
  \<^verbatim>\<open>class A:\<close>\<^verbatim>\<open>    def f() -> None: "d"\<close> followed by \<^verbatim>\<open>class B: "e"\<close>.
\<close>

definition class_then_class :: node where
  "class_then_class =
     Node 0 Other
       [ Node 1 (ClassDef (lit ''A'') None)
           [ Node 2 (FunctionDef (lit ''f'') no_arguments (Some (lit ''None'')) (Some (lit ''d''))) [] ],
         Node 3 (ClassDef (lit ''B'') (Some (lit ''e''))) [] ]"

text \<open>\<^verbatim>\<open>def g() -> None: ""\<close>: a documentation string that is present and empty.\<close>

definition empty_docstring :: node where
  "empty_docstring =
     Node 0 Other [ Node 1 (FunctionDef (lit ''g'') no_arguments (Some (lit ''None'')) (Some [])) [] ]"

text \<open>The tree of an empty file.\<close>

definition empty_module :: node where
  "empty_module = Node 0 Other []"

text \<open>
  \<^verbatim>\<open>import b, a\<close> then \<^verbatim>\<open>from a import x\<close>; and \<^verbatim>\<open>import a\<close> then
  \<^verbatim>\<open>import b\<close>.
\<close>

definition imports_b_a :: node where
  "imports_b_a =
     Node 0 Other
       [ Node 1 (Import [\<lparr> alias_name = lit ''b'', asname = None \<rparr>,
                        \<lparr> alias_name = lit ''a'', asname = None \<rparr>]) [],
         Node 2 (ImportFrom (Some (lit ''a'')) [\<lparr> alias_name = lit ''x'', asname = None \<rparr>]) [] ]"

definition imports_a_b :: node where
  "imports_a_b =
     Node 0 Other
       [ Node 1 (Import [\<lparr> alias_name = lit ''a'', asname = None \<rparr>]) [],
         Node 2 (Import [\<lparr> alias_name = lit ''b'', asname = None \<rparr>]) [] ]"

text \<open>\<^verbatim>\<open>from . import x\<close> then \<^verbatim>\<open>import os\<close>.\<close>

definition relative_import :: node where
  "relative_import =
     Node 0 Other
       [ Node 1 (ImportFrom None [\<lparr> alias_name = lit ''x'', asname = None \<rparr>]) [],
         Node 2 (Import [\<lparr> alias_name = lit ''os'', asname = None \<rparr>]) [] ]"

text \<open>\<^verbatim>\<open>class foo_bar: pass\<close>, \<^verbatim>\<open>class Foo_Bar: pass\<close> and \<^verbatim>\<open>class Foo: pass\<close>.\<close>

definition three_classes :: node where
  "three_classes =
     Node 0 Other
       [ Node 1 (ClassDef (lit ''foo_bar'') None) [],
         Node 2 (ClassDef (lit ''Foo_Bar'') None) [],
         Node 3 (ClassDef (lit ''Foo'') None) [] ]"

text \<open>
  \<^verbatim>\<open>class Foo: pass\<close>, \<^verbatim>\<open>class foo_bar: pass\<close>, \<^verbatim>\<open>class Foo: pass\<close> again and
  \<^verbatim>\<open>class Foo_Bar: pass\<close>.
\<close>

definition classes_reordered :: node where
  "classes_reordered =
     Node 0 Other
       [ Node 1 (ClassDef (lit ''Foo'') None) [],
         Node 2 (ClassDef (lit ''foo_bar'') None) [],
         Node 3 (ClassDef (lit ''Foo'') None) [],
         Node 4 (ClassDef (lit ''Foo_Bar'') None) [] ]"

section \<open>Lemmas on strings\<close>

lemma lit_simps: "lit [] = []" "lit (c # cs) = ch c # lit cs"
  by (simp_all add: lit_def)

lemma map_neq_iff: "(xs \<noteq> map f xs) = (\<exists>x\<in>set xs. f x \<noteq> x)"
  by (induction xs) auto

lemma list_ex_filter: "list_ex P (filter Q xs) = (\<exists>x\<in>set xs. Q x \<and> P x)"
  by (auto simp: list_ex_iff)

lemma ascii_lower_form:
  assumes "ascii_conformant U" "is_ascii name"
  shows "(name \<noteq> lower U name) = (\<exists>c\<in>set name. ascii_upper c)"
proof -
  have "lower U name = map (\<lambda>c. if ascii_upper c then c + 32 else c) name"
    using assms by (simp add: ascii_conformant_def)
  then show ?thesis by (simp add: map_neq_iff)
qed

lemma ascii_upper_form:
  assumes "ascii_conformant U" "is_ascii name"
  shows "list_ex (isupper U) (filter (\<lambda>c. c \<noteq> ch CHR ''_'') name) = (\<exists>c\<in>set name. ascii_upper c)"
proof -
  have "\<And>c. c \<in> set name \<Longrightarrow> isupper U c = ascii_upper c"
    using assms by (simp add: ascii_conformant_def is_ascii_def list_all_iff)
  moreover have "\<And>c. ascii_upper c \<Longrightarrow> c \<noteq> ch CHR ''_''"
    by (auto simp: ascii_upper_def ch_def)
  ultimately show ?thesis by (auto simp: list_ex_filter)
qed

lemma ucd_excerpt_conformant: "ascii_conformant ucd_excerpt"
  by (auto simp: ascii_conformant_def ucd_excerpt_def is_ascii_def list_all_iff ascii_upper_def
      ascii_lower_def)


section \<open>Lemmas on the walk and the parent map\<close>

lemma preorder_unfold: "preorder n = n # concat (map preorder (iter_child_nodes n))"
  by (cases n) simp

lemma mset_concat_map_append:
  "mset (concat (map f (xs @ ys))) = mset (concat (map f xs)) + mset (concat (map f ys))"
  by simp

lemma mset_walk_todo: "mset (walk_todo q) = mset (concat (map preorder q))"
proof (induction q rule: walk_todo.induct)
  case 1
  show ?case by simp
next
  case (2 n todo)
  have "mset (walk_todo (n # todo)) = {#n#} + mset (concat (map preorder (todo @ iter_child_nodes n)))"
    using 2 by simp
  also have "\<dots> = mset (preorder n) + mset (concat (map preorder todo))"
    by (subst preorder_unfold [of n]) simp
  finally show ?case by simp
qed

lemma mset_walk: "mset (walk t) = mset (preorder t)"
  unfolding walk_def mset_walk_todo by simp

lemma set_walk: "set (walk t) = set (preorder t)"
  using mset_walk [of t] by (metis set_mset_mset)

lemma mset_concat_cong:
  "mset xs = mset ys \<Longrightarrow> mset (concat (map f xs)) = mset (concat (map f ys))"
proof -
  have "\<And>zs. mset (concat (map f zs)) = (\<Sum>z\<in>#mset zs. mset (f z))"
    by (induct_tac zs) simp_all
  then show "mset xs = mset ys \<Longrightarrow> ?thesis" by simp
qed

lemma children_preorder_list:
  assumes "\<And>c. c \<in> set cs \<Longrightarrow>
     mset (concat (map iter_child_nodes (preorder c))) + {#c#} = mset (preorder c)"
  shows "mset (concat (map iter_child_nodes (concat (map preorder cs)))) + mset cs
           = mset (concat (map preorder cs))"
  using assms
proof (induction cs)
  case Nil
  show ?case by simp
next
  case (Cons c cs)
  have a: "mset (concat (map iter_child_nodes (preorder c))) + {#c#} = mset (preorder c)"
    using Cons.prems by simp
  have b: "mset (concat (map iter_child_nodes (concat (map preorder cs)))) + mset cs
           = mset (concat (map preorder cs))"
    using Cons by simp
  have "mset (concat (map iter_child_nodes (concat (map preorder (c # cs))))) + mset (c # cs)
        = (mset (concat (map iter_child_nodes (preorder c))) + {#c#})
          + (mset (concat (map iter_child_nodes (concat (map preorder cs)))) + mset cs)"
    by simp
  also have "\<dots> = mset (preorder c) + mset (concat (map preorder cs))"
    by (simp only: a b)
  finally show ?case by simp
qed

lemma children_preorder:
  "mset (concat (map iter_child_nodes (preorder t))) + {#t#} = mset (preorder t)"
proof (induction t)
  case (Node i k cs)
  have "mset (concat (map iter_child_nodes (concat (map preorder cs)))) + mset cs
           = mset (concat (map preorder cs))"
    using Node by (intro children_preorder_list) simp
  then show ?case by (simp add: add.commute)
qed

lemma children_walk:
  "mset (concat (map iter_child_nodes (walk t))) + {#t#} = mset (walk t)"
  using children_preorder [of t] mset_concat_cong [OF mset_walk, of iter_child_nodes t]
  by (simp add: mset_walk)

lemma fst_child_parent_pairs:
  "map fst (child_parent_pairs t) = concat (map iter_child_nodes (walk t))"
  by (simp add: child_parent_pairs_def map_concat comp_def)

lemma set_child_parent_pairs:
  "set (child_parent_pairs t) = {(c, p). p \<in> set (walk t) \<and> c \<in> set (iter_child_nodes p)}"
  by (auto simp: child_parent_pairs_def)

lemma distinct_children_ids:
  assumes "distinct (map nid (walk t))"
  shows "distinct (nid t # map (\<lambda>cp. nid (fst cp)) (child_parent_pairs t))"
proof -
  have "mset (nid t # map (\<lambda>cp. nid (fst cp)) (child_parent_pairs t))
          = image_mset nid (mset (map fst (child_parent_pairs t)) + {#t#})"
    by (simp add: multiset.map_comp comp_def)
  also have "\<dots> = mset (map nid (walk t))"
    by (simp only: fst_child_parent_pairs children_walk mset_map)
  finally show ?thesis
    using assms by (metis mset_eq_imp_distinct_iff)
qed

lemma fold_pairs_other:
  "k \<notin> set (map (\<lambda>cp. nid (fst cp)) ps) \<Longrightarrow>
   fold (\<lambda>(child, parent) m. m(nid child \<mapsto> Some parent)) ps m k = m k"
  by (induction ps arbitrary: m) (auto split: prod.splits)

lemma fold_pairs_lookup:
  "distinct (map (\<lambda>cp. nid (fst cp)) ps) \<Longrightarrow> (c, p) \<in> set ps \<Longrightarrow>
   fold (\<lambda>(child, parent) m. m(nid child \<mapsto> Some parent)) ps m (nid c) = Some (Some p)"
proof (induction ps arbitrary: m)
  case Nil
  then show ?case by simp
next
  case (Cons a ps)
  show ?case
  proof (cases "(c, p) = a")
    case True
    have "nid (fst a) \<notin> set (map (\<lambda>cp. nid (fst cp)) ps)"
      using Cons.prems(1) by simp
    then have "nid c \<notin> set (map (\<lambda>cp. nid (fst cp)) ps)"
      using True by (metis fst_conv)
    then have "fold (\<lambda>(child, parent) m. m(nid child \<mapsto> Some parent)) ps (m(nid c \<mapsto> Some p)) (nid c)
                 = (m(nid c \<mapsto> Some p)) (nid c)"
      by (rule fold_pairs_other)
    moreover have "fold (\<lambda>(child, parent) m. m(nid child \<mapsto> Some parent)) (a # ps) m
                 = fold (\<lambda>(child, parent) m. m(nid child \<mapsto> Some parent)) ps (m(nid c \<mapsto> Some p))"
      using True [symmetric] by (simp del: fun_upd_apply)
    ultimately show ?thesis by (simp del: fun_upd_apply fold_simps add: fun_upd_same)
  next
    case False
    then show ?thesis using Cons by auto
  qed
qed

lemma fold_pairs_dom:
  "dom (fold (\<lambda>(child, parent) m. m(nid child \<mapsto> Some parent)) ps m)
     = dom m \<union> set (map (\<lambda>cp. nid (fst cp)) ps)"
  by (induction ps arbitrary: m) (auto split: prod.splits)

lemma build_parent_map_root: "build_parent_map t (nid t) = Some None"
  by (simp add: build_parent_map_def)

lemma build_parent_map_child:
  assumes "distinct (map nid (walk t))" "p \<in> set (walk t)" "c \<in> set (iter_child_nodes p)"
  shows "build_parent_map t (nid c) = Some (Some p)"
proof -
  have d: "distinct (nid t # map (\<lambda>cp. nid (fst cp)) (child_parent_pairs t))"
    using assms(1) by (rule distinct_children_ids)
  have m: "(c, p) \<in> set (child_parent_pairs t)"
    using assms by (simp add: set_child_parent_pairs)
  then have "nid c \<in> set (map (\<lambda>cp. nid (fst cp)) (child_parent_pairs t))"
    by force
  moreover have "nid t \<notin> set (map (\<lambda>cp. nid (fst cp)) (child_parent_pairs t))"
    using d by simp
  ultimately have "nid c \<noteq> nid t" by metis
  moreover have "fold (\<lambda>(child, parent) m. m(nid child \<mapsto> Some parent)) (child_parent_pairs t) Map.empty (nid c)
          = Some (Some p)"
    using d m by (intro fold_pairs_lookup) simp_all
  ultimately show ?thesis by (simp add: build_parent_map_def map_add_def)
qed

lemma dom_build_parent_map: "dom (build_parent_map t) = nid ` set (walk t)"
proof -
  have "set (walk t) = set (concat (map iter_child_nodes (walk t))) \<union> {t}"
    using children_walk [of t] by (metis set_mset_mset set_mset_union set_mset_single)
  then have "nid ` set (walk t) = insert (nid t) (set (map (\<lambda>cp. nid (fst cp)) (child_parent_pairs t)))"
    by (simp add: fst_child_parent_pairs [symmetric] image_image del: set_concat)
  then show ?thesis
    by (simp add: build_parent_map_def fold_pairs_dom del: set_map)
qed

lemma non_root_has_parent:
  assumes "n \<in> set (walk t)" "n \<noteq> t"
  shows "\<exists>p\<in>set (walk t). n \<in> set (iter_child_nodes p)"
proof -
  have "n \<in># mset (concat (map iter_child_nodes (walk t))) + {#t#}"
    using assms(1) by (simp only: children_walk) simp
  then have "n \<in> set (concat (map iter_child_nodes (walk t)))"
    using assms(2) by simp
  then show ?thesis by auto
qed


lemma walk_scenario:
  "map nid (walk scenario) = [0, 1, 6, 2, 7, 11, 13, 3, 5, 8, 12, 10, 4, 9, 10]"
  by (simp add: scenario_def Foo_class_def bar_def_def baz_def_def annotation_int_def
      returns_int_def load_ctx_def walk_def)

section \<open>Lemmas on the auditors\<close>

lemma collect_map_total:
  assumes "\<And>x. x \<in> set xs \<Longrightarrow> \<exists>v. f x = Inr v"
  shows "\<exists>vs. collect (map f xs) = Inr vs \<and> map Inr vs = map f xs"
  using assms
proof (induction xs)
  case Nil
  show ?case by simp
next
  case (Cons x xs)
  obtain v where v: "f x = Inr v" using Cons.prems by auto
  obtain vs where vs: "collect (map f xs) = Inr vs" "map Inr vs = map f xs"
    using Cons by auto
  have "collect (map f (x # xs)) = Inr (v # vs)"
    by (simp add: v vs bind_err_def)
  moreover have "map Inr (v # vs) = map f (x # xs)"
    by (simp add: v vs)
  ultimately show ?case by blast
qed

lemma is_method_iff:
  "is_method n parents = (\<exists>p c cd. parents (nid n) = Some (Some p) \<and> kind p = ClassDef c cd)"
  by (auto simp: is_method_def get_def is_ClassDef_def split: option.splits kind.splits)

lemma is_FunctionDef_iff: "is_FunctionDef n = (\<exists>f a r d. kind n = FunctionDef f a r d)"
  by (auto simp: is_FunctionDef_def split: kind.splits)

lemma is_ClassDef_iff: "is_ClassDef n = (\<exists>c d. kind n = ClassDef c d)"
  by (auto simp: is_ClassDef_def split: kind.splits)

lemma parent_name_class:
  "parents (nid n) = Some (Some p) \<Longrightarrow> kind p = ClassDef c cd \<Longrightarrow> parent_name parents n = Inr c"
  by (simp add: parent_name_def subscript_def bind_err_def node_name_def)

lemma qualified_name_method:
  assumes "kind n = FunctionDef f a r d" "parents (nid n) = Some (Some p)" "kind p = ClassDef c cd"
  shows "qualified_name parents n = Inr (c @ lit ''.'' @ f)"
proof -
  have "is_method n parents" using assms by (auto simp: is_method_iff)
  then show ?thesis
    using assms by (simp add: qualified_name_def parent_name_class bind_err_def node_name_def)
qed

lemma qualified_name_plain:
  "kind n = FunctionDef f a r d \<Longrightarrow> \<not> is_method n parents \<Longrightarrow> qualified_name parents n = Inr f"
  by (simp add: qualified_name_def node_name_def)

lemma qualified_name_total:
  assumes "is_FunctionDef n"
  shows "\<exists>s. qualified_name parents n = Inr s"
proof -
  obtain f a r d where k: "kind n = FunctionDef f a r d"
    using assms by (auto simp: is_FunctionDef_iff)
  show ?thesis
  proof (cases "is_method n parents")
    case True
    then obtain p c cd where "parents (nid n) = Some (Some p)" "kind p = ClassDef c cd"
      by (auto simp: is_method_iff)
    then show ?thesis using k qualified_name_method by blast
  next
    case False
    then show ?thesis using k qualified_name_plain by blast
  qed
qed

lemma incomplete_function_iff:
  "incomplete_function n =
     (\<exists>f a r d. kind n = FunctionDef f a r d \<and> ((\<exists>x\<in>set (args a). annotation x = None) \<or> r = None))"
  by (auto simp: incomplete_function_def incomplete_def list_ex_iff split: kind.splits)

lemma snake_violator_iff:
  "snake_violator U n = (\<exists>f a r d. kind n = FunctionDef f a r d \<and> violates_snake U f)"
  by (auto simp: snake_violator_def split: kind.splits)

lemma missing_type_annotations_total:
  "\<exists>names. missing_type_annotations tree parents = Inr (sort names)
     \<and> map Inr names = map (qualified_name parents) (filter incomplete_function (walk tree))"
proof -
  have "\<And>n. n \<in> set (filter incomplete_function (walk tree)) \<Longrightarrow> \<exists>s. qualified_name parents n = Inr s"
    by (intro qualified_name_total) (auto simp: incomplete_function_iff is_FunctionDef_iff)
  then obtain names where
    "collect (map (qualified_name parents) (filter incomplete_function (walk tree))) = Inr names"
    "map Inr names = map (qualified_name parents) (filter incomplete_function (walk tree))"
    using collect_map_total by blast
  then show ?thesis
    by (auto simp: missing_type_annotations_def bind_err_def)
qed

lemma sorted_set_code: "sorted_set xs = sort (remdups xs)"
  by (simp add: sorted_set_def sorted_list_of_set_sort_remdups)

lemma set_sorted_set: "set (sorted_set xs) = set xs"
  by (simp add: sorted_set_def)

lemma naming_violations_total:
  "\<exists>names. naming_violations U tree parents
       = Inr (sorted_set (concat (map (camel_violator U) (walk tree))), sorted_set names)
     \<and> map Inr names = map (qualified_name parents) (filter (snake_violator U) (walk tree))"
proof -
  have "\<And>n. n \<in> set (filter (snake_violator U) (walk tree)) \<Longrightarrow> \<exists>s. qualified_name parents n = Inr s"
    by (intro qualified_name_total) (auto simp: snake_violator_iff is_FunctionDef_iff)
  then obtain names where
    "collect (map (qualified_name parents) (filter (snake_violator U) (walk tree))) = Inr names"
    "map Inr names = map (qualified_name parents) (filter (snake_violator U) (walk tree))"
    using collect_map_total by blast
  then show ?thesis
    by (auto simp: naming_violations_def bind_err_def Let_def)
qed

lemma fmt_function_method:
  assumes "kind n = FunctionDef f a r d" "parents (nid n) = Some (Some p)" "kind p = ClassDef c cd"
  shows "fmt parents n = Inr ((c @ lit ''.'' @ f) @ lit '': '' @
           (case d of None \<Rightarrow> lit ''DocString not found.''
                    | Some doc \<Rightarrow> if doc = [] then lit ''DocString not found.'' else doc))"
proof -
  have "is_method n parents" using assms by (auto simp: is_method_iff)
  moreover have "is_FunctionDef n" using assms by (auto simp: is_FunctionDef_iff)
  ultimately show ?thesis
    using assms
    by (simp add: fmt_def parent_name_class bind_err_def node_name_def get_docstring_def lit_def
        split: option.splits)
qed

lemma fmt_function_plain:
  assumes "kind n = FunctionDef f a r d" "\<not> is_method n parents"
  shows "fmt parents n = Inr (f @ lit '': '' @
           (case d of None \<Rightarrow> lit ''DocString not found.''
                    | Some doc \<Rightarrow> if doc = [] then lit ''DocString not found.'' else doc))"
  using assms
  by (simp add: fmt_def bind_err_def node_name_def get_docstring_def lit_def split: option.splits)

lemma fmt_class:
  assumes "kind n = ClassDef c d"
  shows "fmt parents n = Inr (c @ lit '': '' @
           (case d of None \<Rightarrow> lit ''DocString not found.''
                    | Some doc \<Rightarrow> if doc = [] then lit ''DocString not found.'' else doc))"
  using assms
  by (simp add: fmt_def bind_err_def node_name_def get_docstring_def lit_def is_FunctionDef_def
      split: option.splits)

lemma fmt_total:
  assumes "is_ClassDef n \<or> is_FunctionDef n"
  shows "\<exists>s. fmt parents n = Inr s"
proof -
  consider c d where "kind n = ClassDef c d"
    | f a r d where "kind n = FunctionDef f a r d" "is_method n parents"
    | f a r d where "kind n = FunctionDef f a r d" "\<not> is_method n parents"
    using assms by (auto simp: is_ClassDef_iff is_FunctionDef_iff) blast
  then show ?thesis
  proof cases
    case 1 then show ?thesis using fmt_class by blast
  next
    case 2
    then obtain p c cd where "parents (nid n) = Some (Some p)" "kind p = ClassDef c cd"
      by (auto simp: is_method_iff)
    then show ?thesis using 2 fmt_function_method by blast
  next
    case 3 then show ?thesis using fmt_function_plain by blast
  qed
qed

lemma docstring_entries_total:
  "\<exists>entries. docstring_entries tree parents = Inr entries
     \<and> map Inr entries = map (fmt parents) (filter (\<lambda>n. is_ClassDef n \<or> is_FunctionDef n) (walk tree))"
proof -
  have "\<And>n. n \<in> set (filter (\<lambda>n. is_ClassDef n \<or> is_FunctionDef n) (walk tree)) \<Longrightarrow> \<exists>s. fmt parents n = Inr s"
    by (intro fmt_total) simp
  then show ?thesis
    unfolding docstring_entries_def by (rule collect_map_total)
qed

lemma walk_todo_append:
  "walk_todo (xs @ ys) = xs @ walk_todo (ys @ concat (map iter_child_nodes xs))"
  by (induction xs arbitrary: ys) simp_all

lemma walk_todo_levels: "walk_todo q = q @ walk_todo (concat (map iter_child_nodes q))"
  using walk_todo_append [of q "[]"] by simp

lemma Inr_mem_map:
  assumes "map Inr vs = map f xs" and "x \<in> set xs" and "f x = Inr v"
  shows "v \<in> set vs"
proof -
  have "Inr ` set vs = f ` set xs"
    using arg_cong [OF assms(1), of set] by simp
  moreover have "Inr v \<in> f ` set xs"
    using assms(2,3) by force
  ultimately show ?thesis by auto
qed

lemmas scenario_defs = scenario_def Foo_class_def bar_def_def baz_def_def annotation_int_def
  returns_int_def load_ctx_def class_with_method_def function_alone_def no_arguments_def
  untyped_def typed_def

lemma scenario_definitions:
  "filter (\<lambda>n. is_ClassDef n \<or> is_FunctionDef n) (walk scenario) = [Foo_class, baz_def, bar_def]"
  by (simp add: scenario_defs walk_def is_ClassDef_def is_FunctionDef_def)

lemma scenario_incomplete: "filter incomplete_function (walk scenario) = [bar_def]"
  by (simp add: scenario_defs walk_def incomplete_function_def incomplete_def)

lemma scenario_parents:
  "build_parent_map scenario (nid bar_def) = Some (Some Foo_class)"
  "build_parent_map scenario (nid baz_def) = Some (Some scenario)"
  "build_parent_map scenario (nid Foo_class) = Some (Some scenario)"
  by (simp_all add: scenario_defs walk_def build_parent_map_def child_parent_pairs_def)

lemma scenario_kinds:
  "kind bar_def = FunctionDef (lit ''bar'') (no_arguments \<lparr> args := [untyped ''x''] \<rparr>) None None"
  "kind Foo_class = ClassDef (lit ''Foo'') None"
  "kind scenario = Other"
  by (simp_all add: scenario_defs)

lemma bar_in_scenario: "bar_def \<in> set (walk scenario)"
  by (simp add: scenario_defs walk_def)

lemma camel_violator_iff:
  "c \<in> set (camel_violator U n) = (\<exists>d. kind n = ClassDef c d \<and> violates_camel U c)"
  by (cases "kind n") (auto simp: camel_violator_def)

lemma violates_camel_iff:
  "violates_camel U name = (\<not> (name \<noteq> [] \<and> isupper U (hd name) \<and> ch CHR ''_'' \<notin> set name))"
  by (cases name) (simp_all add: violates_camel_def)

lemma three_classes_nodes:
  "Node 1 (ClassDef (lit ''foo_bar'') None) [] \<in> set (walk three_classes)"
  "Node 2 (ClassDef (lit ''Foo_Bar'') None) [] \<in> set (walk three_classes)"
  "Node 3 (ClassDef (lit ''Foo'') None) [] \<in> set (walk three_classes)"
  by (simp_all add: three_classes_def walk_def)

lemma a1_not_snake_ascii:
  assumes "ascii_conformant U" "is_ascii name"
  shows "a1_not_snake U name = (\<exists>c\<in>set name. \<not> ascii_lower c \<and> c \<noteq> ch CHR ''_'')"
proof -
  have l: "\<And>c. c \<in> set name \<Longrightarrow> islower U c = ascii_lower c"
    using assms by (simp add: ascii_conformant_def is_ascii_def list_all_iff)
  have "list_all (\<lambda>x. islower U x \<or> x = ch CHR ''_'') (lit ''lower'')"
    using assms(1) by (simp add: ascii_conformant_def lit_def ch_def ascii_lower_def)
  then have "\<not> list_all (\<lambda>x. islower U x \<or> x = ch CHR ''_'') name \<Longrightarrow> name \<noteq> lit ''lower''"
    by auto
  then have "a1_not_snake U name = (\<not> list_all (\<lambda>x. islower U x \<or> x = ch CHR ''_'') name)"
    by (auto simp: a1_not_snake_def)
  then show ?thesis using l by (auto simp: list_all_iff)
qed

lemma violates_snake_ascii:
  assumes "ascii_conformant U" "is_ascii name"
  shows "violates_snake U name = (\<exists>c\<in>set name. ascii_upper c)"
  using assms by (simp add: violates_snake_def ascii_lower_form ascii_upper_form)

lemma scenario_fmt:
  "fmt (build_parent_map scenario) Foo_class = Inr (lit ''Foo: DocString not found.'')"
  "fmt (build_parent_map scenario) baz_def = Inr (lit ''baz: doc'')"
  "fmt (build_parent_map scenario) bar_def = Inr (lit ''Foo.bar: DocString not found.'')"
  by (simp_all add: fmt_def is_FunctionDef_def is_method_def is_ClassDef_def get_def scenario_parents
      parent_name_def subscript_def node_name_def get_docstring_def bind_err_def)
     (simp_all add: scenario_defs lit_def)

lemmas eval_defs = walk_def build_parent_map_def child_parent_pairs_def docstring_entries_def fmt_def
  is_FunctionDef_def is_method_def is_ClassDef_def get_def parent_name_def subscript_def
  node_name_def get_docstring_def bind_err_def no_arguments_def

lemma import_names_iff:
  "x \<in> set (import_names n) = (\<exists>a as. kind n = Import as \<and> a \<in> set as \<and> x = alias_name a)"
  by (cases "kind n") (auto simp: import_names_def)

lemma from_module_iff:
  "m \<in> set (from_module n) = (m \<noteq> [] \<and> (\<exists>as. kind n = ImportFrom (Some m) as))"
  by (cases "kind n") (auto simp: from_module_def split: option.splits)

lemma class_name_iff: "c \<in> set (class_name n) = (\<exists>d. kind n = ClassDef c d)"
  by (cases "kind n") (auto simp: class_name_def)

lemma function_name_iff: "f \<in> set (function_name n) = (\<exists>a r d. kind n = FunctionDef f a r d)"
  by (cases "kind n") (auto simp: function_name_def)

lemma set_packages_imported:
  "set (packages_imported tree) =
     {alias_name a | a n as. n \<in> set (walk tree) \<and> kind n = Import as \<and> a \<in> set as}
     \<union> {m. m \<noteq> [] \<and> (\<exists>n\<in>set (walk tree). \<exists>as. kind n = ImportFrom (Some m) as)}"
proof -
  have "(\<Union>n\<in>set (walk tree). set (import_names n))
          = {alias_name a | a n as. n \<in> set (walk tree) \<and> kind n = Import as \<and> a \<in> set as}"
    by (simp only: set_eq_iff UN_iff mem_Collect_eq import_names_iff) blast
  moreover have "(\<Union>n\<in>set (walk tree). set (from_module n))
          = {m. m \<noteq> [] \<and> (\<exists>n\<in>set (walk tree). \<exists>as. kind n = ImportFrom (Some m) as)}"
    by (simp only: set_eq_iff UN_iff mem_Collect_eq from_module_iff) blast
  moreover have "set (packages_imported tree)
          = (\<Union>n\<in>set (walk tree). set (import_names n)) \<union> (\<Union>n\<in>set (walk tree). set (from_module n))"
    by (simp add: packages_imported_def set_sorted_set)
  ultimately show ?thesis by (simp only:)
qed

lemma set_classes_defined:
  "set (classes_defined tree) = {c. \<exists>n\<in>set (walk tree). \<exists>d. kind n = ClassDef c d}"
proof -
  have "set (classes_defined tree) = (\<Union>n\<in>set (walk tree). set (class_name n))"
    by (simp add: classes_defined_def set_sorted_set)
  also have "\<dots> = {c. \<exists>n\<in>set (walk tree). \<exists>d. kind n = ClassDef c d}"
    by (simp only: set_eq_iff UN_iff mem_Collect_eq class_name_iff) blast
  finally show ?thesis .
qed

lemma set_functions_defined:
  "set (functions_defined tree parents) =
     {f. \<exists>n\<in>set (walk tree). (\<exists>a r d. kind n = FunctionDef f a r d) \<and> \<not> is_method n parents}"
proof -
  have "set (functions_defined tree parents)
          = (\<Union>n\<in>{n \<in> set (walk tree). is_FunctionDef n \<and> \<not> is_method n parents}.
               set (function_name n))"
    by (simp add: functions_defined_def set_sorted_set)
  also have "\<dots> = {f. \<exists>n\<in>set (walk tree). (\<exists>a r d. kind n = FunctionDef f a r d)
                        \<and> \<not> is_method n parents}"
    by (simp only: function_name_iff is_FunctionDef_iff set_eq_iff UN_iff mem_Collect_eq) blast
  finally show ?thesis .
qed

lemma sorted_set_lexord: "sorted_wrt (\<lambda>a b. (a, b) \<in> lexord {(u, v). u < v}) (sorted_set xs)"
proof -
  have "sorted_wrt (<) (sorted_set xs)"
    by (simp add: sorted_set_def strict_sorted_iff)
  moreover have "(<) = (\<lambda>a b :: pystr. (a, b) \<in> lexord {(u, v). u < v})"
    by (intro ext) (simp add: list_less_def)
  ultimately show ?thesis by (simp only:)
qed

lemma sorted_set_cong: "set xs = set ys \<Longrightarrow> sorted_set xs = sorted_set ys"
  by (simp add: sorted_set_def)

lemma sorted_list_determined:
  assumes "set (sorted_set xs) = set (sorted_set ys)"
  shows "sorted_set xs = sorted_set ys"
proof -
  have "set xs = set ys" using assms by (simp only: set_sorted_set)
  then show ?thesis by (rule sorted_set_cong)
qed

lemma imports_examples:
  "packages_imported imports_b_a = [lit ''a'', lit ''b'']"
  "packages_imported imports_a_b = [lit ''a'', lit ''b'']"
  by (simp_all add: imports_b_a_def imports_a_b_def walk_def packages_imported_def sorted_set_code
      import_names_def from_module_def lit_def ch_def)

lemma walk_relative_import:
  "walk relative_import =
     [relative_import,
      Node 1 (ImportFrom None [\<lparr> alias_name = lit ''x'', asname = None \<rparr>]) [],
      Node 2 (Import [\<lparr> alias_name = lit ''os'', asname = None \<rparr>]) []]"
  by (simp add: relative_import_def walk_def)

lemma sorted_set_Nil: "sorted_set [] = []"
  by (simp add: sorted_set_def)

lemma filter_none: "(\<And>x. x \<in> set xs \<Longrightarrow> \<not> P x) \<Longrightarrow> filter P xs = []"
  by (induction xs) auto

lemma concat_none: "(\<And>x. x \<in> set xs \<Longrightarrow> f x = []) \<Longrightarrow> concat (map f xs) = []"
  by (induction xs) auto

lemma only_other_findings:
  assumes "\<forall>n\<in>set (walk tree). kind n = Other"
  shows "docstring_entries tree parents = Inr []"
    and "missing_type_annotations tree parents = Inr []"
    and "naming_violations U tree parents = Inr ([], [])"
    and "packages_imported tree = []"
    and "classes_defined tree = []"
    and "functions_defined tree parents = []"
proof -
  have 1: "filter (\<lambda>n. is_ClassDef n \<or> is_FunctionDef n) (walk tree) = []"
    using assms by (intro filter_none) (simp add: is_ClassDef_def is_FunctionDef_def)
  have 2: "filter incomplete_function (walk tree) = []"
    using assms by (intro filter_none) (simp add: incomplete_function_def)
  have 3: "filter (snake_violator U) (walk tree) = []"
    using assms by (intro filter_none) (simp add: snake_violator_def)
  have 4: "concat (map (camel_violator U) (walk tree)) = []"
    using assms by (intro concat_none) (simp add: camel_violator_def)
  have 5: "concat (map import_names (walk tree)) = []" "concat (map from_module (walk tree)) = []"
    "concat (map class_name (walk tree)) = []"
    using assms by (intro concat_none; simp add: import_names_def from_module_def class_name_def)+
  have 6: "filter (\<lambda>n. is_FunctionDef n \<and> \<not> is_method n parents) (walk tree) = []"
    using assms by (intro filter_none) (simp add: is_FunctionDef_def)
  show "docstring_entries tree parents = Inr []"
    by (simp add: docstring_entries_def 1)
  show "missing_type_annotations tree parents = Inr []"
    by (simp add: missing_type_annotations_def 2 bind_err_def)
  show "naming_violations U tree parents = Inr ([], [])"
    by (simp add: naming_violations_def 3 4 bind_err_def sorted_set_Nil)
  show "packages_imported tree = []"
    by (simp add: packages_imported_def 5 sorted_set_Nil)
  show "classes_defined tree = []"
    by (simp add: classes_defined_def 5 sorted_set_Nil)
  show "functions_defined tree parents = []"
    by (simp add: functions_defined_def 6 sorted_set_Nil)
qed

lemma fold_pairs_append:
  "fold (\<lambda>(child, parent) m. m(nid child \<mapsto> Some parent)) (xs @ (c, p) # ys) m
     = fold (\<lambda>(child, parent) m. m(nid child \<mapsto> Some parent)) ys
         ((fold (\<lambda>(child, parent) m. m(nid child \<mapsto> Some parent)) xs m)(nid c \<mapsto> Some p))"
  by (simp del: fun_upd_apply)

lemma fold_pairs_last:
  assumes "\<forall>cp\<in>set ys. nid (fst cp) \<noteq> nid c"
  shows "fold (\<lambda>(child, parent) m. m(nid child \<mapsto> Some parent)) (xs @ (c, p) # ys) m (nid c)
           = Some (Some p)"
proof -
  have "nid c \<notin> set (map (\<lambda>cp. nid (fst cp)) ys)"
    using assms by auto
  then have "fold (\<lambda>(child, parent) m. m(nid child \<mapsto> Some parent)) ys
         ((fold (\<lambda>(child, parent) m. m(nid child \<mapsto> Some parent)) xs m)(nid c \<mapsto> Some p)) (nid c)
       = ((fold (\<lambda>(child, parent) m. m(nid child \<mapsto> Some parent)) xs m)(nid c \<mapsto> Some p)) (nid c)"
    by (rule fold_pairs_other)
  then show ?thesis
    by (simp only: fold_pairs_append fun_upd_same)
qed

lemma build_parent_map_last:
  assumes "child_parent_pairs t = before @ (c, p) # after"
    and "\<forall>cp\<in>set after. nid (fst cp) \<noteq> nid c" and "nid c \<noteq> nid t"
  shows "build_parent_map t (nid c) = Some (Some p)"
  using assms(3) fold_pairs_last [OF assms(2), of before p Map.empty]
  by (simp add: build_parent_map_def map_add_def assms(1))

lemma last_pair_of:
  assumes "n \<in> set (walk t)" and "nid n \<noteq> nid t"
  shows "\<exists>before c p after. child_parent_pairs t = before @ (c, p) # after \<and> nid c = nid n
           \<and> (\<forall>cp\<in>set after. nid (fst cp) \<noteq> nid n)"
proof -
  have "n \<noteq> t" using assms(2) by auto
  then obtain q where "q \<in> set (walk t)" "n \<in> set (iter_child_nodes q)"
    using assms(1) non_root_has_parent by blast
  then have "(n, q) \<in> set (child_parent_pairs t)"
    by (simp add: set_child_parent_pairs)
  then have "\<exists>cp\<in>set (child_parent_pairs t). nid (fst cp) = nid n"
    by force
  then obtain before cp after where s: "child_parent_pairs t = before @ cp # after"
    "nid (fst cp) = nid n" "\<forall>z\<in>set after. nid (fst z) \<noteq> nid n"
    using split_list_last_prop [of "child_parent_pairs t" "\<lambda>cp. nid (fst cp) = nid n"] by blast
  then have "child_parent_pairs t = before @ (fst cp, snd cp) # after" by simp
  then show ?thesis using s(2,3) by blast
qed

lemma walk_class_with_method: "map nid (walk class_with_method) = [0, 1, 2, 3, 5, 4]"
  by (simp add: scenario_defs walk_def)

lemma bar_in_class_with_method: "bar_def \<in> set (walk class_with_method)"
  by (simp add: scenario_defs walk_def)

lemma class_with_method_parent:
  "build_parent_map class_with_method (nid bar_def) = Some (Some Foo_class)"
  by (simp add: scenario_defs walk_def build_parent_map_def child_parent_pairs_def)

lemma load_in_scenario:
  "load_ctx \<in> set (walk scenario)" "annotation_int \<in> set (walk scenario)"
  "returns_int \<in> set (walk scenario)"
  "load_ctx \<in> set (iter_child_nodes annotation_int)" "load_ctx \<in> set (iter_child_nodes returns_int)"
  "annotation_int \<noteq> returns_int" "nid load_ctx \<noteq> nid scenario"
  by (simp_all add: scenario_defs walk_def)

lemma scenario_load_parent:
  "build_parent_map scenario (nid load_ctx) = Some (Some annotation_int)"
  by (simp add: scenario_defs walk_def build_parent_map_def child_parent_pairs_def)

lemma inventory_examples:
  "classes_defined three_classes = [lit ''Foo'', lit ''Foo_Bar'', lit ''foo_bar'']"
  "classes_defined classes_reordered = [lit ''Foo'', lit ''Foo_Bar'', lit ''foo_bar'']"
  "functions_defined scenario (build_parent_map scenario) = [lit ''baz'']"
  "functions_defined function_alone (build_parent_map function_alone) = [lit ''baz'']"
  by (simp_all add: three_classes_def classes_reordered_def scenario_defs walk_def
      classes_defined_def functions_defined_def sorted_set_code class_name_def function_name_def
      is_FunctionDef_def is_method_def is_ClassDef_def get_def build_parent_map_def
      child_parent_pairs_def lit_def ch_def)

section \<open>Annotation audit (C1)\<close>

text \<open>
  C1, as amended. A function definition is incomplete if and only if some parameter of its
  ordinary parameter list \<open>args.args\<close> (the parameters that can be passed by position or by
  keyword) has no annotation, or its return annotation is missing. The report holds, in
  ascending order, one qualified name for each incomplete function definition of the walk
  and nothing else. Positional-only and keyword-only parameters, \<open>*args\<close> and \<open>**kwargs\<close>
  are not examined.
\<close>

theorem annotation_audit_reads_args_only:
  "(\<forall>n. incomplete_function n =
       (\<exists>f a r d. kind n = FunctionDef f a r d \<and>
          ((\<exists>x\<in>set (args a). annotation x = None) \<or> r = None)))
   \<and> (\<exists>names. missing_type_annotations tree parents = Inr names \<and> sorted names
         \<and> mset (map Inr names)
             = mset (map (qualified_name parents) (filter incomplete_function (walk tree))))"
proof -
  obtain names where n: "missing_type_annotations tree parents = Inr (sort names)"
    "map Inr names = map (qualified_name parents) (filter incomplete_function (walk tree))"
    using missing_type_annotations_total by blast
  have "mset (map Inr (sort names)) = mset (map (Inr :: pystr \<Rightarrow> error + pystr) names)"
    by simp
  then have "mset (map Inr (sort names))
      = mset (map (qualified_name parents) (filter incomplete_function (walk tree)))"
    by (simp only: n(2))
  then show ?thesis
    using n(1) incomplete_function_iff by (metis sorted_sort)
qed

theorem annotation_audit_reads_args_only_witness:
  "missing_type_annotations scenario (build_parent_map scenario) = Inr [lit ''Foo.bar'']"
proof -
  have q: "qualified_name (build_parent_map scenario) bar_def = Inr (lit ''Foo.bar'')"
    using qualified_name_method [where n = bar_def and parents = "build_parent_map scenario",
        OF scenario_kinds(1) scenario_parents(1) scenario_kinds(2)]
    by (simp add: lit_def)
  obtain names where n: "missing_type_annotations scenario (build_parent_map scenario) = Inr names"
    "mset (map Inr names)
       = mset (map (qualified_name (build_parent_map scenario)) (filter incomplete_function (walk scenario)))"
    using annotation_audit_reads_args_only [of scenario "build_parent_map scenario"] by blast
  have "mset (map Inr names) = {#Inr (lit ''Foo.bar'') :: error + pystr#}"
    using n(2) by (simp only: scenario_incomplete list.map q) simp
  then have "names = [lit ''Foo.bar'']"
    by (cases names) (auto simp: single_is_union)
  then show ?thesis using n(1) by simp
qed

text \<open>
  The claim as stated fails: a function whose only unannotated parameter is \<open>*args\<close>, or
  \<open>**kwargs\<close>, or a positional-only parameter, and whose return type is annotated, is not
  incomplete, and the report for a file of such functions is empty.
\<close>

theorem catch_all_parameters_not_examined:
  "missing_type_annotations catch_all_functions (build_parent_map catch_all_functions) = Inr []
   \<and> \<not> incomplete (no_arguments \<lparr> vararg := Some (untyped ''args'') \<rparr>) (Some (lit ''int''))
   \<and> \<not> incomplete (no_arguments \<lparr> kwarg := Some (untyped ''kwargs'') \<rparr>) (Some (lit ''int''))
   \<and> \<not> incomplete (no_arguments \<lparr> posonlyargs := [untyped ''x''] \<rparr>) (Some (lit ''int''))"
  by (simp add: catch_all_functions_def walk_def missing_type_annotations_def incomplete_function_def
      incomplete_def no_arguments_def bind_err_def)

section \<open>Qualified names (C2)\<close>

text \<open>
  C2. For a function definition of the tree whose entry in the parent map is a class
  definition, the three auditors return without an exception, the documentation findings
  hold an entry that starts with \<open>Class.function\<close> followed by a colon, and the
  missing-annotation findings and the naming violations hold exactly the name
  \<open>Class.function\<close> whenever the function is incomplete, respectively violates the
  naming rule.
\<close>

theorem method_names_agree:
  assumes "n \<in> set (walk tree)" and "kind n = FunctionDef f a r d"
    and "parents (nid n) = Some (Some p)" and "kind p = ClassDef c cd"
  shows "\<exists>docs missing bad_classes bad_funcs.
           docstring_entries tree parents = Inr docs
         \<and> missing_type_annotations tree parents = Inr missing
         \<and> naming_violations U tree parents = Inr (bad_classes, bad_funcs)
         \<and> (\<exists>body. (c @ lit ''.'' @ f) @ lit '': '' @ body \<in> set docs)
         \<and> (incomplete a r \<longrightarrow> c @ lit ''.'' @ f \<in> set missing)
         \<and> (violates_snake U f \<longrightarrow> c @ lit ''.'' @ f \<in> set bad_funcs)"
proof -
  have q: "qualified_name parents n = Inr (c @ lit ''.'' @ f)"
    using assms(2-4) by (rule qualified_name_method)
  obtain docs where docs: "docstring_entries tree parents = Inr docs"
    "map Inr docs = map (fmt parents) (filter (\<lambda>n. is_ClassDef n \<or> is_FunctionDef n) (walk tree))"
    using docstring_entries_total by blast
  obtain body where body: "fmt parents n = Inr ((c @ lit ''.'' @ f) @ lit '': '' @ body)"
    using fmt_function_method [where n = n and parents = parents, OF assms(2-4)] by blast
  have "n \<in> set (filter (\<lambda>n. is_ClassDef n \<or> is_FunctionDef n) (walk tree))"
    using assms(1,2) by (simp add: is_FunctionDef_iff)
  then have d: "(c @ lit ''.'' @ f) @ lit '': '' @ body \<in> set docs"
    by (rule Inr_mem_map [OF docs(2) _ body])
  obtain ms where ms: "missing_type_annotations tree parents = Inr (sort ms)"
    "map Inr ms = map (qualified_name parents) (filter incomplete_function (walk tree))"
    using missing_type_annotations_total by blast
  have m: "incomplete a r \<longrightarrow> c @ lit ''.'' @ f \<in> set (sort ms)"
  proof
    assume "incomplete a r"
    then have "n \<in> set (filter incomplete_function (walk tree))"
      using assms(1,2) by (simp add: incomplete_function_def)
    then have "c @ lit ''.'' @ f \<in> set ms"
      by (rule Inr_mem_map [OF ms(2) _ q])
    then show "c @ lit ''.'' @ f \<in> set (sort ms)" by simp
  qed
  obtain bs where bs: "naming_violations U tree parents
       = Inr (sorted_set (concat (map (camel_violator U) (walk tree))), sorted_set bs)"
    "map Inr bs = map (qualified_name parents) (filter (snake_violator U) (walk tree))"
    using naming_violations_total by blast
  have b: "violates_snake U f \<longrightarrow> c @ lit ''.'' @ f \<in> set (sorted_set bs)"
  proof
    assume "violates_snake U f"
    then have "n \<in> set (filter (snake_violator U) (walk tree))"
      using assms(1,2) by (simp add: snake_violator_def)
    then have "c @ lit ''.'' @ f \<in> set bs"
      by (rule Inr_mem_map [OF bs(2) _ q])
    then show "c @ lit ''.'' @ f \<in> set (sorted_set bs)" by (simp add: set_sorted_set)
  qed
  show ?thesis using docs(1) ms(1) bs(1) d m b by blast
qed

theorem method_names_agree_witness:
  "\<exists>docs missing bad_classes bad_funcs.
      docstring_entries scenario (build_parent_map scenario) = Inr docs
    \<and> missing_type_annotations scenario (build_parent_map scenario) = Inr missing
    \<and> naming_violations ucd_excerpt scenario (build_parent_map scenario) = Inr (bad_classes, bad_funcs)
    \<and> (\<exists>body. lit ''Foo.bar: '' @ body \<in> set docs)
    \<and> lit ''Foo.bar'' \<in> set missing"
proof -
  have i: "incomplete (no_arguments \<lparr> args := [untyped ''x''] \<rparr>) None"
    by (simp add: incomplete_def)
  have e: "(lit ''Foo'' @ lit ''.'' @ lit ''bar'') @ lit '': '' @ body = lit ''Foo.bar: '' @ body"
    for body by (simp add: lit_def)
  obtain docs missing bad_classes bad_funcs body where
    "docstring_entries scenario (build_parent_map scenario) = Inr docs"
    "missing_type_annotations scenario (build_parent_map scenario) = Inr missing"
    "naming_violations ucd_excerpt scenario (build_parent_map scenario) = Inr (bad_classes, bad_funcs)"
    "(lit ''Foo'' @ lit ''.'' @ lit ''bar'') @ lit '': '' @ body \<in> set docs"
    "lit ''Foo'' @ lit ''.'' @ lit ''bar'' \<in> set missing"
    using method_names_agree [where n = bar_def and parents = "build_parent_map scenario"
        and U = ucd_excerpt,
        OF bar_in_scenario scenario_kinds(1) scenario_parents(1) scenario_kinds(2)] i
    by blast
  moreover have "lit ''Foo'' @ lit ''.'' @ lit ''bar'' = lit ''Foo.bar''"
    by (simp add: lit_def)
  ultimately show ?thesis
    by (metis e)
qed

section \<open>Function naming (C3)\<close>

text \<open>
  C3, as amended. Under any Unicode tables that treat the ASCII block as ASCII, the two
  formulations agree on every ASCII name: the name differs from its lowercased form if and
  only if one of its characters other than the underscore is upper case. \<open>getValue\<close> is a
  violation and \<open>get_value\<close> is not.
\<close>

theorem snake_formulations_agree_ascii:
  assumes "ascii_conformant U"
  shows "(\<forall>name. is_ascii name \<longrightarrow>
            (name \<noteq> lower U name) =
              list_ex (isupper U) (filter (\<lambda>c. c \<noteq> ch CHR ''_'') name))
         \<and> violates_snake U (lit ''getValue'')
         \<and> \<not> violates_snake U (lit ''get_value'')"
proof (intro conjI allI impI)
  fix name assume "is_ascii name"
  then show "(name \<noteq> lower U name) = list_ex (isupper U) (filter (\<lambda>c. c \<noteq> ch CHR ''_'') name)"
    using assms by (simp add: ascii_lower_form ascii_upper_form)
next
  have a: "is_ascii (lit ''getValue'')" by (simp add: is_ascii_def lit_simps ch_def)
  have "\<exists>c\<in>set (lit ''getValue''). ascii_upper c" by (simp add: lit_simps ch_def ascii_upper_def)
  then show "violates_snake U (lit ''getValue'')"
    unfolding violates_snake_def using ascii_lower_form [OF assms a] by blast
next
  have a: "is_ascii (lit ''get_value'')" by (simp add: is_ascii_def lit_simps ch_def)
  have "\<not> (\<exists>c\<in>set (lit ''get_value''). ascii_upper c)" by (simp add: lit_simps ch_def ascii_upper_def)
  then show "\<not> violates_snake U (lit ''get_value'')"
    unfolding violates_snake_def
    using ascii_lower_form [OF assms a] ascii_upper_form [OF assms a] by blast
qed

theorem snake_formulations_agree_ascii_witness:
  "([103, 101, 116, 86] \<noteq> lower ucd_excerpt [103, 101, 116, 86]) =
     list_ex (isupper ucd_excerpt) (filter (\<lambda>c. c \<noteq> ch CHR ''_'') [103, 101, 116, 86])
   \<and> lower ucd_excerpt [103, 101, 116, 86] = [103, 101, 116, 118]
   \<and> violates_snake ucd_excerpt (lit ''getValue'')"
proof -
  have a: "is_ascii [103, 101, 116, 86]" by (simp add: is_ascii_def)
  have l: "lower ucd_excerpt [103, 101, 116, 86] = [103, 101, 116, 118]"
    by (simp add: ucd_excerpt_def ascii_upper_def)
  show ?thesis
    using snake_formulations_agree_ascii [OF ucd_excerpt_conformant] a l by blast
qed

text \<open>
  The claim as stated, for every string, fails at the one-letter name U+1F88: a titlecase
  letter is changed by \<open>lower\<close> and is not upper case, so the first formulation holds and
  the second does not. \<open>_violates_snake\<close>, the disjunction of both, reports the name.
\<close>

theorem snake_formulations_disagree_titlecase:
  "[8072] \<noteq> lower ucd_excerpt [8072] \<and>
   \<not> list_ex (isupper ucd_excerpt) (filter (\<lambda>c. c \<noteq> ch CHR ''_'') [8072]) \<and>
   violates_snake ucd_excerpt [8072]"
  by (simp add: ucd_excerpt_def ascii_upper_def violates_snake_def ch_def)

section \<open>Class naming (C4)\<close>

text \<open>
  C4. The naming auditor never raises, and for every class definition of the tree its name
  is among the reported class names if and only if it is not the case that the name is
  non-empty, its first character is upper case and it contains no underscore. The name
  \<open>foo_bar\<close> is a violation under any Unicode tables.
\<close>

theorem class_naming_rule:
  "\<exists>bad_classes bad_funcs.
      naming_violations U tree parents = Inr (bad_classes, bad_funcs)
    \<and> (\<forall>n\<in>set (walk tree). \<forall>c d. kind n = ClassDef c d \<longrightarrow>
          (c \<in> set bad_classes)
            = (\<not> (c \<noteq> [] \<and> isupper U (hd c) \<and> ch CHR ''_'' \<notin> set c)))
    \<and> violates_camel U (lit ''foo_bar'')"
proof -
  obtain bs where bs: "naming_violations U tree parents
       = Inr (sorted_set (concat (map (camel_violator U) (walk tree))), sorted_set bs)"
    using naming_violations_total by blast
  have "(c \<in> set (sorted_set (concat (map (camel_violator U) (walk tree)))))
          = (\<not> (c \<noteq> [] \<and> isupper U (hd c) \<and> ch CHR ''_'' \<notin> set c))"
    if "n \<in> set (walk tree)" "kind n = ClassDef c d" for n c d
  proof -
    have "(c \<in> set (sorted_set (concat (map (camel_violator U) (walk tree)))))
            = (\<exists>m\<in>set (walk tree). c \<in> set (camel_violator U m))"
      by (auto simp: set_sorted_set)
    also have "\<dots> = violates_camel U c"
      using that by (auto simp: camel_violator_iff)
    finally show ?thesis by (simp only: violates_camel_iff)
  qed
  moreover have "violates_camel U (lit ''foo_bar'')"
    by (simp add: violates_camel_iff lit_def)
  ultimately show ?thesis using bs by blast
qed

theorem class_naming_rule_witness:
  "\<exists>bad_classes bad_funcs.
      naming_violations ucd_excerpt three_classes (build_parent_map three_classes)
        = Inr (bad_classes, bad_funcs)
    \<and> lit ''foo_bar'' \<in> set bad_classes \<and> lit ''Foo_Bar'' \<in> set bad_classes
    \<and> lit ''Foo'' \<notin> set bad_classes"
proof -
  obtain bad_classes bad_funcs where
    v: "naming_violations ucd_excerpt three_classes (build_parent_map three_classes)
          = Inr (bad_classes, bad_funcs)"
    and r: "\<forall>n\<in>set (walk three_classes). \<forall>c d. kind n = ClassDef c d \<longrightarrow>
          (c \<in> set bad_classes)
            = (\<not> (c \<noteq> [] \<and> isupper ucd_excerpt (hd c) \<and> ch CHR ''_'' \<notin> set c))"
    using class_naming_rule [of ucd_excerpt three_classes "build_parent_map three_classes"]
    by blast
  have "lit ''foo_bar'' \<in> set bad_classes"
    using r three_classes_nodes(1) by (simp add: lit_def)
  moreover have "lit ''Foo_Bar'' \<in> set bad_classes"
    using r three_classes_nodes(2) by (simp add: lit_def)
  moreover have "lit ''Foo'' \<notin> set bad_classes"
    using bspec [OF r three_classes_nodes(3)]
    by (simp add: lit_def ch_def ucd_excerpt_def ascii_upper_def)
  ultimately show ?thesis using v by blast
qed

section \<open>Parent map (C5)\<close>

text \<open>
  C5, as amended. For every tree, the keys of the parent map are exactly the nodes of the
  tree and the root is mapped to \<open>None\<close>. Every other node is mapped to a node of the tree
  that has it as a child: the parent of the last pair under its key that the
  comprehension stores, in the order of the walk. When the nodes of the tree are pairwise
  different objects, every node other than the root is a child of exactly one node, and
  that node is its entry.
\<close>

theorem parent_map_of_every_tree:
  "dom (build_parent_map tree) = nid ` set (walk tree)
   \<and> build_parent_map tree (nid tree) = Some None
   \<and> (\<forall>n\<in>set (walk tree). nid n \<noteq> nid tree \<longrightarrow>
        (\<exists>before c p after.
            child_parent_pairs tree = before @ (c, p) # after \<and> nid c = nid n
          \<and> (\<forall>cp\<in>set after. nid (fst cp) \<noteq> nid n)
          \<and> p \<in> set (walk tree) \<and> c \<in> set (iter_child_nodes p)
          \<and> build_parent_map tree (nid n) = Some (Some p)))
   \<and> (distinct (map nid (walk tree)) \<longrightarrow>
        (\<forall>n\<in>set (walk tree). n \<noteq> tree \<longrightarrow>
            (\<exists>!p. p \<in> set (walk tree) \<and> n \<in> set (iter_child_nodes p))
          \<and> (\<forall>p\<in>set (walk tree). n \<in> set (iter_child_nodes p) \<longrightarrow>
                build_parent_map tree (nid n) = Some (Some p))))"
proof (intro conjI ballI impI)
  show "dom (build_parent_map tree) = nid ` set (walk tree)" by (rule dom_build_parent_map)
  show "build_parent_map tree (nid tree) = Some None" by (rule build_parent_map_root)
next
  fix n assume n: "n \<in> set (walk tree)" "nid n \<noteq> nid tree"
  then obtain before c p after where s: "child_parent_pairs tree = before @ (c, p) # after"
    "nid c = nid n" "\<forall>cp\<in>set after. nid (fst cp) \<noteq> nid n"
    using last_pair_of by blast
  have "(c, p) \<in> set (child_parent_pairs tree)" by (simp add: s(1))
  then have m: "p \<in> set (walk tree)" "c \<in> set (iter_child_nodes p)"
    by (simp_all add: set_child_parent_pairs)
  have "build_parent_map tree (nid c) = Some (Some p)"
    using s n(2) by (intro build_parent_map_last [of tree before c p after]) simp_all
  then show "\<exists>before c p after.
            child_parent_pairs tree = before @ (c, p) # after \<and> nid c = nid n
          \<and> (\<forall>cp\<in>set after. nid (fst cp) \<noteq> nid n)
          \<and> p \<in> set (walk tree) \<and> c \<in> set (iter_child_nodes p)
          \<and> build_parent_map tree (nid n) = Some (Some p)"
    using s m by (metis (no_types, lifting))
next
  fix n assume d: "distinct (map nid (walk tree))" and n: "n \<in> set (walk tree)" "n \<noteq> tree"
  then obtain p where p: "p \<in> set (walk tree)" "n \<in> set (iter_child_nodes p)"
    using non_root_has_parent by blast
  have "q = p" if "q \<in> set (walk tree)" "n \<in> set (iter_child_nodes q)" for q
  proof -
    have "build_parent_map tree (nid n) = Some (Some q)"
      using d that by (rule build_parent_map_child)
    moreover have "build_parent_map tree (nid n) = Some (Some p)"
      using d p by (rule build_parent_map_child)
    ultimately show ?thesis by simp
  qed
  then show "\<exists>!p. p \<in> set (walk tree) \<and> n \<in> set (iter_child_nodes p)"
    using p by blast
next
  fix n p assume "distinct (map nid (walk tree))" "p \<in> set (walk tree)" "n \<in> set (iter_child_nodes p)"
  then show "build_parent_map tree (nid n) = Some (Some p)"
    by (rule build_parent_map_child)
qed

theorem parent_map_of_every_tree_witness:
  "distinct (map nid (walk class_with_method))
   \<and> dom (build_parent_map class_with_method) = nid ` set (walk class_with_method)
   \<and> build_parent_map class_with_method (nid class_with_method) = Some None
   \<and> (\<exists>!p. p \<in> set (walk class_with_method) \<and> bar_def \<in> set (iter_child_nodes p))
   \<and> build_parent_map class_with_method (nid bar_def) = Some (Some Foo_class)
   \<and> (\<exists>p. p \<in> set (walk scenario) \<and> build_parent_map scenario (nid load_ctx) = Some (Some p))"
proof -
  have d: "distinct (map nid (walk class_with_method))"
    by (simp add: walk_class_with_method)
  have "bar_def \<noteq> class_with_method"
    by (simp add: scenario_defs)
  then have "(\<exists>!p. p \<in> set (walk class_with_method) \<and> bar_def \<in> set (iter_child_nodes p))
      \<and> dom (build_parent_map class_with_method) = nid ` set (walk class_with_method)
      \<and> build_parent_map class_with_method (nid class_with_method) = Some None"
    using d parent_map_of_every_tree [of class_with_method] bar_in_class_with_method by blast
  moreover have "\<exists>p. p \<in> set (walk scenario)
      \<and> build_parent_map scenario (nid load_ctx) = Some (Some p)"
    using parent_map_of_every_tree [of scenario] load_in_scenario(1,7) by blast
  ultimately show ?thesis
    using d class_with_method_parent by blast
qed

text \<open>
  The claim as stated fails on the tree the parser returns for the scenario of the
  specification. The context object \<open>Load\<close> is a child of the \<open>Name\<close> node of the parameter
  annotation and of the \<open>Name\<close> node of the return annotation, so that it has no unique
  parent; the map keeps the parent stored last.
\<close>

theorem shared_node_has_two_parents:
  "\<not> distinct (map nid (walk scenario))
   \<and> annotation_int \<in> set (walk scenario) \<and> load_ctx \<in> set (iter_child_nodes annotation_int)
   \<and> returns_int \<in> set (walk scenario) \<and> load_ctx \<in> set (iter_child_nodes returns_int)
   \<and> annotation_int \<noteq> returns_int
   \<and> \<not> (\<exists>!p. p \<in> set (walk scenario) \<and> load_ctx \<in> set (iter_child_nodes p))
   \<and> build_parent_map scenario (nid load_ctx) = Some (Some annotation_int)"
proof -
  have "\<not> distinct (map nid (walk scenario))"
    by (simp add: walk_scenario)
  moreover have "\<not> (\<exists>!p. p \<in> set (walk scenario) \<and> load_ctx \<in> set (iter_child_nodes p))"
    using load_in_scenario(2-6) by blast
  ultimately show ?thesis
    using load_in_scenario scenario_load_parent by blast
qed

section \<open>Structural inventory (C6, C9)\<close>

text \<open>
  C6. Each of the three collections of the inventory holds exactly the names of its kind
  that occur in the tree: the names of the imported modules, the names of the class
  definitions, and the names of the function definitions that are not methods. Each is
  free of duplicates and strictly ascending in the lexicographic order of strings, and it
  is determined by the set of those names: two trees with the same names give the same
  collection, wherever and however often the names occur in them.
\<close>

theorem inventory_names_sorted_deduplicated:
  "set (packages_imported t)
     = {alias_name a | a n as. n \<in> set (walk t) \<and> kind n = Import as \<and> a \<in> set as}
       \<union> {m. m \<noteq> [] \<and> (\<exists>n\<in>set (walk t). \<exists>as. kind n = ImportFrom (Some m) as)}
   \<and> set (classes_defined t) = {c. \<exists>n\<in>set (walk t). \<exists>d. kind n = ClassDef c d}
   \<and> set (functions_defined t ps)
     = {f. \<exists>n\<in>set (walk t). (\<exists>a r d. kind n = FunctionDef f a r d) \<and> \<not> is_method n ps}
   \<and> distinct (packages_imported t) \<and> distinct (classes_defined t)
   \<and> distinct (functions_defined t ps)
   \<and> sorted_wrt (\<lambda>a b. (a, b) \<in> lexord {(u, v). u < v}) (packages_imported t)
   \<and> sorted_wrt (\<lambda>a b. (a, b) \<in> lexord {(u, v). u < v}) (classes_defined t)
   \<and> sorted_wrt (\<lambda>a b. (a, b) \<in> lexord {(u, v). u < v}) (functions_defined t ps)
   \<and> ({alias_name a | a n as. n \<in> set (walk t) \<and> kind n = Import as \<and> a \<in> set as}
        \<union> {m. m \<noteq> [] \<and> (\<exists>n\<in>set (walk t). \<exists>as. kind n = ImportFrom (Some m) as)}
      = {alias_name a | a n as. n \<in> set (walk t') \<and> kind n = Import as \<and> a \<in> set as}
        \<union> {m. m \<noteq> [] \<and> (\<exists>n\<in>set (walk t'). \<exists>as. kind n = ImportFrom (Some m) as)}
      \<longrightarrow> packages_imported t = packages_imported t')
   \<and> ({c. \<exists>n\<in>set (walk t). \<exists>d. kind n = ClassDef c d}
      = {c. \<exists>n\<in>set (walk t'). \<exists>d. kind n = ClassDef c d}
      \<longrightarrow> classes_defined t = classes_defined t')
   \<and> ({f. \<exists>n\<in>set (walk t). (\<exists>a r d. kind n = FunctionDef f a r d) \<and> \<not> is_method n ps}
      = {f. \<exists>n\<in>set (walk t'). (\<exists>a r d. kind n = FunctionDef f a r d) \<and> \<not> is_method n ps'}
      \<longrightarrow> functions_defined t ps = functions_defined t' ps')"
proof (intro conjI impI)
  show "set (packages_imported t)
     = {alias_name a | a n as. n \<in> set (walk t) \<and> kind n = Import as \<and> a \<in> set as}
       \<union> {m. m \<noteq> [] \<and> (\<exists>n\<in>set (walk t). \<exists>as. kind n = ImportFrom (Some m) as)}"
    by (rule set_packages_imported)
  show "set (classes_defined t) = {c. \<exists>n\<in>set (walk t). \<exists>d. kind n = ClassDef c d}"
    by (rule set_classes_defined)
  show "set (functions_defined t ps)
     = {f. \<exists>n\<in>set (walk t). (\<exists>a r d. kind n = FunctionDef f a r d) \<and> \<not> is_method n ps}"
    by (rule set_functions_defined)
  show "distinct (packages_imported t)" "distinct (classes_defined t)"
    "distinct (functions_defined t ps)"
    by (simp_all add: packages_imported_def classes_defined_def functions_defined_def
        sorted_set_def)
  show "sorted_wrt (\<lambda>a b. (a, b) \<in> lexord {(u, v). u < v}) (packages_imported t)"
    unfolding packages_imported_def by (rule sorted_set_lexord)
  show "sorted_wrt (\<lambda>a b. (a, b) \<in> lexord {(u, v). u < v}) (classes_defined t)"
    unfolding classes_defined_def by (rule sorted_set_lexord)
  show "sorted_wrt (\<lambda>a b. (a, b) \<in> lexord {(u, v). u < v}) (functions_defined t ps)"
    unfolding functions_defined_def by (rule sorted_set_lexord)
next
  assume "{alias_name a | a n as. n \<in> set (walk t) \<and> kind n = Import as \<and> a \<in> set as}
        \<union> {m. m \<noteq> [] \<and> (\<exists>n\<in>set (walk t). \<exists>as. kind n = ImportFrom (Some m) as)}
      = {alias_name a | a n as. n \<in> set (walk t') \<and> kind n = Import as \<and> a \<in> set as}
        \<union> {m. m \<noteq> [] \<and> (\<exists>n\<in>set (walk t'). \<exists>as. kind n = ImportFrom (Some m) as)}"
  then have "set (packages_imported t) = set (packages_imported t')"
    by (simp only: set_packages_imported)
  then show "packages_imported t = packages_imported t'"
    unfolding packages_imported_def by (rule sorted_list_determined)
next
  assume "{c. \<exists>n\<in>set (walk t). \<exists>d. kind n = ClassDef c d}
      = {c. \<exists>n\<in>set (walk t'). \<exists>d. kind n = ClassDef c d}"
  then have "set (classes_defined t) = set (classes_defined t')"
    by (simp only: set_classes_defined)
  then show "classes_defined t = classes_defined t'"
    unfolding classes_defined_def by (rule sorted_list_determined)
next
  assume "{f. \<exists>n\<in>set (walk t). (\<exists>a r d. kind n = FunctionDef f a r d) \<and> \<not> is_method n ps}
      = {f. \<exists>n\<in>set (walk t'). (\<exists>a r d. kind n = FunctionDef f a r d) \<and> \<not> is_method n ps'}"
  then have "set (functions_defined t ps) = set (functions_defined t' ps')"
    by (simp only: set_functions_defined)
  then show "functions_defined t ps = functions_defined t' ps'"
    unfolding functions_defined_def by (rule sorted_list_determined)
qed


theorem inventory_names_sorted_deduplicated_witness:
  "packages_imported imports_b_a = packages_imported imports_a_b
   \<and> packages_imported imports_b_a = [lit ''a'', lit ''b'']
   \<and> classes_defined three_classes = classes_defined classes_reordered
   \<and> classes_defined classes_reordered = [lit ''Foo'', lit ''Foo_Bar'', lit ''foo_bar'']
   \<and> functions_defined scenario (build_parent_map scenario)
       = functions_defined function_alone (build_parent_map function_alone)
   \<and> functions_defined scenario (build_parent_map scenario) = [lit ''baz'']
   \<and> lit ''baz'' \<in> {f. \<exists>n\<in>set (walk scenario). (\<exists>a r d. kind n = FunctionDef f a r d)
                          \<and> \<not> is_method n (build_parent_map scenario)}
   \<and> lit ''bar'' \<notin> {f. \<exists>n\<in>set (walk scenario). (\<exists>a r d. kind n = FunctionDef f a r d)
                          \<and> \<not> is_method n (build_parent_map scenario)}"
proof -
  have "set (packages_imported imports_b_a) = set (packages_imported imports_a_b)"
    by (simp only: imports_examples)
  then have 1: "packages_imported imports_b_a = packages_imported imports_a_b"
    using inventory_names_sorted_deduplicated [of imports_b_a _ imports_a_b]
    by (simp only: set_packages_imported)
  have "set (classes_defined three_classes) = set (classes_defined classes_reordered)"
    by (simp only: inventory_examples)
  then have 2: "classes_defined three_classes = classes_defined classes_reordered"
    using inventory_names_sorted_deduplicated [of three_classes _ classes_reordered]
    by (simp only: set_classes_defined)
  have "set (functions_defined scenario (build_parent_map scenario))
      = set (functions_defined function_alone (build_parent_map function_alone))"
    by (simp only: inventory_examples)
  then have 3: "functions_defined scenario (build_parent_map scenario)
       = functions_defined function_alone (build_parent_map function_alone)"
    using inventory_names_sorted_deduplicated [of scenario "build_parent_map scenario"
        function_alone "build_parent_map function_alone"]
    by (simp only: set_functions_defined)
  have s: "set (functions_defined scenario (build_parent_map scenario))
      = {f. \<exists>n\<in>set (walk scenario). (\<exists>a r d. kind n = FunctionDef f a r d)
                          \<and> \<not> is_method n (build_parent_map scenario)}"
    using inventory_names_sorted_deduplicated [of scenario "build_parent_map scenario"] by blast
  have 4: "lit ''baz'' \<in> {f. \<exists>n\<in>set (walk scenario). (\<exists>a r d. kind n = FunctionDef f a r d)
                          \<and> \<not> is_method n (build_parent_map scenario)}"
    unfolding s [symmetric] by (simp add: inventory_examples)
  have 5: "lit ''bar'' \<notin> {f. \<exists>n\<in>set (walk scenario). (\<exists>a r d. kind n = FunctionDef f a r d)
                          \<and> \<not> is_method n (build_parent_map scenario)}"
    unfolding s [symmetric] by (simp add: inventory_examples lit_def ch_def)
  show ?thesis
    using 1 2 3 4 5 by (simp only: imports_examples inventory_examples) simp
qed

text \<open>
  C9. The imported names are exactly the names of the aliases of the \<open>Import\<close> nodes and
  the non-empty modules of the \<open>ImportFrom\<close> nodes. An \<open>ImportFrom\<close> without a module
  contributes nothing, and a tree whose only imports are of that kind has no imported
  name.
\<close>

theorem relative_import_not_listed:
  "set (packages_imported tree) =
     {alias_name a | a n as. n \<in> set (walk tree) \<and> kind n = Import as \<and> a \<in> set as}
     \<union> {m. m \<noteq> [] \<and> (\<exists>n\<in>set (walk tree). \<exists>as. kind n = ImportFrom (Some m) as)}
   \<and> (\<forall>n as. kind n = ImportFrom None as \<longrightarrow> from_module n = [] \<and> import_names n = [])
   \<and> ((\<forall>n\<in>set (walk tree). \<forall>as. kind n \<noteq> Import as)
        \<and> (\<forall>n\<in>set (walk tree). \<forall>m as. kind n = ImportFrom m as \<longrightarrow> m = None)
      \<longrightarrow> packages_imported tree = [])"
proof (intro conjI allI impI)
  show "set (packages_imported tree) =
     {alias_name a | a n as. n \<in> set (walk tree) \<and> kind n = Import as \<and> a \<in> set as}
     \<union> {m. m \<noteq> [] \<and> (\<exists>n\<in>set (walk tree). \<exists>as. kind n = ImportFrom (Some m) as)}"
    by (rule set_packages_imported)
  show "from_module n = []" if "kind n = ImportFrom None as" for n as
    using that by (simp add: from_module_def)
  show "import_names n = []" if "kind n = ImportFrom None as" for n as
    using that by (simp add: import_names_def)
  assume a: "(\<forall>n\<in>set (walk tree). \<forall>as. kind n \<noteq> Import as)
        \<and> (\<forall>n\<in>set (walk tree). \<forall>m as. kind n = ImportFrom m as \<longrightarrow> m = None)"
  have "set (packages_imported tree) = {}"
  proof -
    have "\<And>n. n \<in> set (walk tree) \<Longrightarrow> import_names n = [] \<and> from_module n = []"
      using a by (auto simp: import_names_def from_module_def split: kind.splits option.splits)
    then show ?thesis
      by (simp add: packages_imported_def set_sorted_set)
  qed
  then show "packages_imported tree = []" by simp
qed

theorem relative_import_not_listed_witness:
  "lit ''os'' \<in> set (packages_imported relative_import)
   \<and> packages_imported (Node 1 (ImportFrom None [\<lparr> alias_name = lit ''x'', asname = None \<rparr>]) []) = []"
proof -
  have "Node 2 (Import [\<lparr> alias_name = lit ''os'', asname = None \<rparr>]) [] \<in> set (walk relative_import)"
    by (simp add: walk_relative_import)
  then have "lit ''os'' \<in> {alias_name a | a n as.
      n \<in> set (walk relative_import) \<and> kind n = Import as \<and> a \<in> set as}"
    by force
  then have "lit ''os'' \<in> set (packages_imported relative_import)"
    using relative_import_not_listed [of relative_import] by blast
  moreover have "packages_imported (Node 1 (ImportFrom None [\<lparr> alias_name = lit ''x'', asname = None \<rparr>]) []) = []"
    using relative_import_not_listed [of "Node 1 (ImportFrom None [\<lparr> alias_name = lit ''x'', asname = None \<rparr>]) []"]
    by (simp add: walk_def)
  ultimately show ?thesis by blast
qed

section \<open>Documentation audit (C7)\<close>

text \<open>
  C7, as amended. The documentation auditor never raises and returns exactly one entry for
  each class definition and function definition, in the order of \<open>ast.walk\<close>, which is
  breadth-first: the root, then its children, and in general the nodes of the queue
  followed by the walk of all their children. An entry is the name of the node, qualified
  as \<open>Class.function\<close> for a method, followed by a colon and by the documentation string
  when there is one and it is not empty, and by \<open>DocString not found.\<close> otherwise.
\<close>

theorem docstring_entries_in_walk_order:
  "(\<exists>entries. docstring_entries tree parents = Inr entries
       \<and> map Inr entries
           = map (fmt parents) (filter (\<lambda>n. is_ClassDef n \<or> is_FunctionDef n) (walk tree)))
   \<and> (\<forall>n c d. kind n = ClassDef c d \<longrightarrow>
         fmt parents n = Inr (c @ lit '': '' @
           (case d of None \<Rightarrow> lit ''DocString not found.''
                    | Some doc \<Rightarrow> if doc = [] then lit ''DocString not found.'' else doc)))
   \<and> (\<forall>n f a r d. kind n = FunctionDef f a r d \<longrightarrow> \<not> is_method n parents \<longrightarrow>
         fmt parents n = Inr (f @ lit '': '' @
           (case d of None \<Rightarrow> lit ''DocString not found.''
                    | Some doc \<Rightarrow> if doc = [] then lit ''DocString not found.'' else doc)))
   \<and> (\<forall>n f a r d p c cd. kind n = FunctionDef f a r d \<longrightarrow>
         parents (nid n) = Some (Some p) \<longrightarrow> kind p = ClassDef c cd \<longrightarrow>
         fmt parents n = Inr ((c @ lit ''.'' @ f) @ lit '': '' @
           (case d of None \<Rightarrow> lit ''DocString not found.''
                    | Some doc \<Rightarrow> if doc = [] then lit ''DocString not found.'' else doc)))
   \<and> walk tree = tree # walk_todo (iter_child_nodes tree)
   \<and> (\<forall>q. walk_todo q = q @ walk_todo (concat (map iter_child_nodes q)))"
proof (intro conjI allI impI)
  show "\<exists>entries. docstring_entries tree parents = Inr entries
       \<and> map Inr entries
           = map (fmt parents) (filter (\<lambda>n. is_ClassDef n \<or> is_FunctionDef n) (walk tree))"
    by (rule docstring_entries_total)
  show "walk tree = tree # walk_todo (iter_child_nodes tree)"
    by (simp add: walk_def)
  show "walk_todo q = q @ walk_todo (concat (map iter_child_nodes q))" for q
    by (rule walk_todo_levels)
qed (erule fmt_class fmt_function_plain fmt_function_method; assumption)+

theorem docstring_entries_in_walk_order_witness:
  "docstring_entries scenario (build_parent_map scenario)
     = Inr [lit ''Foo: DocString not found.'', lit ''baz: doc'', lit ''Foo.bar: DocString not found.'']"
proof -
  obtain entries where e: "docstring_entries scenario (build_parent_map scenario) = Inr entries"
    "map Inr entries = map (fmt (build_parent_map scenario))
        (filter (\<lambda>n. is_ClassDef n \<or> is_FunctionDef n) (walk scenario))"
    using docstring_entries_in_walk_order [of scenario "build_parent_map scenario"] by blast
  have "map Inr entries = map (Inr :: pystr \<Rightarrow> error + pystr)
      [lit ''Foo: DocString not found.'', lit ''baz: doc'', lit ''Foo.bar: DocString not found.'']"
    using e(2) by (simp only: scenario_definitions list.map scenario_fmt)
  then have "entries = [lit ''Foo: DocString not found.'', lit ''baz: doc'', lit ''Foo.bar: DocString not found.'']"
    by (simp only: inj_map_eq_map [OF inj_Inr])
  then show ?thesis using e(1) by simp
qed

text \<open>
  The claim as stated fails twice. For a class with a method followed by a second class,
  the entries are listed class, class, method, while pre-order lists the method before
  the second class. And a documentation string that is present and empty is reported as
  not found.
\<close>

theorem docstring_entries_not_preorder:
  "docstring_entries class_then_class (build_parent_map class_then_class)
     = Inr [lit ''A: DocString not found.'', lit ''B: e'', lit ''A.f: d'']
   \<and> collect (map (fmt (build_parent_map class_then_class))
        (filter (\<lambda>n. is_ClassDef n \<or> is_FunctionDef n) (preorder class_then_class)))
     = Inr [lit ''A: DocString not found.'', lit ''A.f: d'', lit ''B: e'']
   \<and> docstring_entries empty_docstring (build_parent_map empty_docstring)
     = Inr [lit ''g: DocString not found.'']"
  by (simp add: class_then_class_def empty_docstring_def eval_defs lit_def)

section \<open>Report of an empty file (C8)\<close>

text \<open>
  C8, as amended. For a tree without import, class or function nodes the analysis never
  raises and the report consists of the fifteen lines below: the four section headers are
  all present, the three inventory lines read \<open>None\<close>, and the annotation and naming
  sections each hold their statement of full compliance. The \<open>DocStrings\<close> section consists
  of its header alone.
\<close>

theorem empty_file_report:
  assumes "\<forall>n\<in>set (walk tree). kind n = Other"
  shows "style_report U path_name total_lines tree =
     Inr (join newline
       [ lit ''File analysed: '' @ path_name,
         lit ''Total number of lines of code: '' @ str_nat total_lines,
         [],
         lit ''File Structure'',
         lit ''Packages imported: None'',
         lit ''Classes defined: None'',
         lit ''Functions defined: None'',
         [],
         lit ''DocStrings'',
         [],
         lit ''Type Annotation Check'',
         lit ''All functions and methods use type annotations.'',
         [],
         lit ''Naming Convention Check'',
         lit ''All names adhere to the specified conventions.'' ])"
proof -
  have "lit ''Packages imported: '' @ lit ''None'' = lit ''Packages imported: None''"
    "lit ''Classes defined: '' @ lit ''None'' = lit ''Classes defined: None''"
    "lit ''Functions defined: '' @ lit ''None'' = lit ''Functions defined: None''"
    by (simp_all add: lit_def)
  then show ?thesis
    by (simp add: style_report_def Let_def only_other_findings [OF assms] bind_err_def
        render_report_def report_lines_def del: join.simps)
qed

theorem empty_file_report_witness:
  "style_report ucd_excerpt (lit ''empty.py'') 0 empty_module =
     Inr (join newline
       [ lit ''File analysed: empty.py'',
         lit ''Total number of lines of code: 0'',
         [],
         lit ''File Structure'',
         lit ''Packages imported: None'',
         lit ''Classes defined: None'',
         lit ''Functions defined: None'',
         [],
         lit ''DocStrings'',
         [],
         lit ''Type Annotation Check'',
         lit ''All functions and methods use type annotations.'',
         [],
         lit ''Naming Convention Check'',
         lit ''All names adhere to the specified conventions.'' ])"
proof -
  have h: "\<forall>n\<in>set (walk empty_module). kind n = Other"
    by (simp add: empty_module_def walk_def)
  have "lit ''File analysed: '' @ lit ''empty.py'' = lit ''File analysed: empty.py''"
    "lit ''Total number of lines of code: '' @ str_nat 0 = lit ''Total number of lines of code: 0''"
    by (simp_all add: lit_def ch_def)
  then show ?thesis
    using empty_file_report [OF h, of ucd_excerpt "lit ''empty.py''" 0] by (simp only:)
qed

text \<open>
  The claim as stated fails for the \<open>DocStrings\<close> section: in the report of an empty file
  its header is followed directly by the empty line that ends the section, so that the
  section has no content, whereas the \<open>File Structure\<close> section holds its three lines.
\<close>

theorem docstrings_section_empty:
  "style_report ucd_excerpt (lit ''empty.py'') 0 empty_module
     = Inr (join newline (report_lines (lit ''empty.py'') 0 [] [] [] [] [] [] []))
   \<and> section_body (lit ''DocStrings'') (report_lines (lit ''empty.py'') 0 [] [] [] [] [] [] []) = []
   \<and> section_body (lit ''File Structure'') (report_lines (lit ''empty.py'') 0 [] [] [] [] [] [] [])
       = [lit ''Packages imported: None'', lit ''Classes defined: None'', lit ''Functions defined: None'']"
  by (simp add: style_report_def Let_def empty_module_def walk_def build_parent_map_def
      child_parent_pairs_def docstring_entries_def missing_type_annotations_def naming_violations_def
      packages_imported_def classes_defined_def functions_defined_def sorted_set_Nil bind_err_def
      camel_violator_def snake_violator_def incomplete_function_def is_ClassDef_def is_FunctionDef_def
      import_names_def from_module_def class_name_def
      render_report_def report_lines_def section_body_def lit_def ch_def del: join.simps)

section \<open>The two function-naming checks (C10)\<close>

text \<open>
  C10, as amended. On ASCII names, every name that \<open>_violates_snake\<close> reports is reported
  by the test of assignment1 as well, and the two tests classify a name identically when
  it consists of ASCII letters and underscores only. The exemption of the name \<open>lower\<close>
  changes nothing, since that name passes the character test.
\<close>

theorem snake_checks_on_letters:
  assumes "ascii_conformant U" and "is_ascii name"
  shows "(violates_snake U name \<longrightarrow> a1_not_snake U name)
       \<and> ((\<forall>c\<in>set name. ascii_upper c \<or> ascii_lower c \<or> c = ch CHR ''_'')
            \<longrightarrow> a1_not_snake U name = violates_snake U name)
       \<and> a1_not_snake U name = (\<not> list_all (\<lambda>x. islower U x \<or> x = ch CHR ''_'') name)"
proof -
  have u: "\<And>c. ascii_upper c \<Longrightarrow> \<not> ascii_lower c \<and> c \<noteq> ch CHR ''_''"
    by (auto simp: ascii_upper_def ascii_lower_def ch_def)
  have l: "\<And>c. c \<in> set name \<Longrightarrow> islower U c = ascii_lower c"
    using assms by (simp add: ascii_conformant_def is_ascii_def list_all_iff)
  have a: "a1_not_snake U name = (\<exists>c\<in>set name. \<not> ascii_lower c \<and> c \<noteq> ch CHR ''_'')"
    using assms by (rule a1_not_snake_ascii)
  have v: "violates_snake U name = (\<exists>c\<in>set name. ascii_upper c)"
    using assms by (rule violates_snake_ascii)
  have "violates_snake U name \<longrightarrow> a1_not_snake U name"
    using a v u by blast
  moreover have "(\<forall>c\<in>set name. ascii_upper c \<or> ascii_lower c \<or> c = ch CHR ''_'')
            \<longrightarrow> a1_not_snake U name = violates_snake U name"
    using a v u by blast
  moreover have "a1_not_snake U name = (\<not> list_all (\<lambda>x. islower U x \<or> x = ch CHR ''_'') name)"
    using a l by (auto simp: list_all_iff)
  ultimately show ?thesis by blast
qed

theorem snake_checks_on_letters_witness:
  "a1_not_snake ucd_excerpt (lit ''getValue'') \<and> violates_snake ucd_excerpt (lit ''getValue'')
   \<and> \<not> a1_not_snake ucd_excerpt (lit ''get_value'') \<and> \<not> a1_not_snake ucd_excerpt (lit ''lower'')"
proof -
  have 1: "is_ascii (lit ''getValue'')" "is_ascii (lit ''get_value'')" "is_ascii (lit ''lower'')"
    by (simp_all add: is_ascii_def lit_def ch_def)
  have 2: "violates_snake ucd_excerpt (lit ''getValue'')"
    by (simp add: violates_snake_def ucd_excerpt_def lit_def ch_def ascii_upper_def)
  have 3: "\<forall>c\<in>set (lit ''get_value''). ascii_upper c \<or> ascii_lower c \<or> c = ch CHR ''_''"
    by (simp add: lit_def ch_def ascii_lower_def)
  have 4: "\<not> violates_snake ucd_excerpt (lit ''get_value'')"
    by (simp add: violates_snake_def ucd_excerpt_def lit_def ch_def ascii_upper_def)
  have 5: "list_all (\<lambda>x. islower ucd_excerpt x \<or> x = ch CHR ''_'') (lit ''lower'')"
    by (simp add: ucd_excerpt_def lit_def ch_def ascii_lower_def)
  show ?thesis
    using snake_checks_on_letters [OF ucd_excerpt_conformant 1(1)]
      snake_checks_on_letters [OF ucd_excerpt_conformant 1(2)]
      snake_checks_on_letters [OF ucd_excerpt_conformant 1(3)] 2 3 4 5
    by blast
qed

text \<open>
  The claim as stated fails on a name with a digit: \<open>'2'.islower()\<close> is false, so
  assignment1 reports \<open>f2\<close>, while \<open>f2\<close> equals its lowercased form and has no upper-case
  character, so assignment2 does not.
\<close>

theorem snake_checks_differ_on_digit:
  "a1_not_snake ucd_excerpt (lit ''f2'') \<and> \<not> violates_snake ucd_excerpt (lit ''f2'')"
  by (simp add: a1_not_snake_def violates_snake_def ucd_excerpt_def lit_def ch_def ascii_upper_def
      ascii_lower_def)

end
